theory Spec2Isabelle
  imports Complex_Main "HOL-Library.Sublist" "HOL-Library.Multiset"
begin

section \<open>JavaScript strings\<close>

text \<open>
  A JavaScript string is the list of its UTF-16 code units, each a natural number below
  65536: \<open>length\<close> is the list length, \<open>substring(0, n)\<close> is \<open>take n\<close>, and
  concatenation is \<open>@\<close>. \<open>ascii\<close> embeds the ASCII literals of the source. Glyphs
  outside ASCII in the source's literals are written as their code units.
\<close>

type_synonym jstring = "nat list"

definition ascii :: "string \<Rightarrow> jstring" where
  "ascii s = map of_char s"

definition nl :: jstring where
  "nl = [10]"

definition dq :: jstring where
  "dq = [34]"

text \<open>
  \<open>String.prototype.toUpperCase\<close> reads the string as code points (a high surrogate
  followed by a low surrogate is one code point) and replaces each by its Unicode
  uppercase mapping. On ASCII the mapping is written out. Outside ASCII it is the
  Unicode character database, a parameter of the model: \<open>U c\<close> is the list of code
  units of the uppercase mapping of the code point \<open>c\<close>.
\<close>

type_synonym case_table = "nat \<Rightarrow> jstring"

definition ascii_upper :: "nat \<Rightarrow> nat" where
  "ascii_upper c = (if 97 \<le> c \<and> c \<le> 122 then c - 32 else c)"

definition is_high_surrogate :: "nat \<Rightarrow> bool" where
  "is_high_surrogate c = (55296 \<le> c \<and> c \<le> 56319)"

definition is_low_surrogate :: "nat \<Rightarrow> bool" where
  "is_low_surrogate c = (56320 \<le> c \<and> c \<le> 57343)"

definition code_point :: "nat \<Rightarrow> nat \<Rightarrow> nat" where
  "code_point hi lo = 65536 + (hi - 55296) * 1024 + (lo - 56320)"

definition upper_point :: "case_table \<Rightarrow> nat \<Rightarrow> jstring" where
  "upper_point U c = (if c < 128 then [ascii_upper c] else U c)"

fun toUpperCase :: "case_table \<Rightarrow> jstring \<Rightarrow> jstring" where
  "toUpperCase U [] = []"
| "toUpperCase U [c] = upper_point U c"
| "toUpperCase U (c # d # cs) =
     (if is_high_surrogate c \<and> is_low_surrogate d
      then U (code_point c d) @ toUpperCase U cs
      else upper_point U c @ toUpperCase U (d # cs))"

text \<open>
  A case table with two entries of the Unicode data, enough for the strings it is used
  on: U+0131 (dotless i) has the uppercase mapping U+0049 (I), and U+017F (long s) has
  the uppercase mapping U+0053 (S). Every other code point is its own mapping.
\<close>

definition sample_case_table :: case_table where
  "sample_case_table c = (if c = 305 then [73] else if c = 383 then [83] else [c])"

text \<open>\<open>s.includes(k)\<close>: \<open>k\<close> occurs in \<open>s\<close> as a contiguous block of code units.\<close>

fun js_includes :: "jstring \<Rightarrow> jstring \<Rightarrow> bool" where
  "js_includes [] k = (k = [])"
| "js_includes (c # cs) k = (prefix k (c # cs) \<or> js_includes cs k)"

text \<open>\<open>s.replace(pat, rep)\<close> with a string pattern: the first occurrence only.\<close>

fun replace_first :: "jstring \<Rightarrow> jstring \<Rightarrow> jstring \<Rightarrow> jstring" where
  "replace_first pat rep [] = (if pat = [] then rep else [])"
| "replace_first pat rep (c # cs) =
     (if prefix pat (c # cs) then rep @ drop (length pat) (c # cs)
      else c # replace_first pat rep cs)"

text \<open>
  The white space of \<open>trim()\<close> and of the regular expression class \<open>\s\<close>: the
  ECMAScript \<open>WhiteSpace\<close> and \<open>LineTerminator\<close> code points.
\<close>

definition is_space :: "nat \<Rightarrow> bool" where
  "is_space c =
     (c \<in> set [9, 10, 11, 12, 13, 32, 160, 5760, 8232, 8233, 8239, 8287, 12288, 65279]
      \<or> (8192 \<le> c \<and> c \<le> 8202))"

definition trim :: "jstring \<Rightarrow> jstring" where
  "trim s = rev (dropWhile is_space (rev (dropWhile is_space s)))"

text \<open>\<open>s.replace(/\s+/g, r)\<close>: every maximal run of white space becomes one \<open>r\<close>
  (the flag says whether the scan is inside a run).\<close>

fun replace_space_runs :: "jstring \<Rightarrow> bool \<Rightarrow> jstring \<Rightarrow> jstring" where
  "replace_space_runs r in_run [] = []"
| "replace_space_runs r in_run (c # cs) =
     (if is_space c then (if in_run then [] else r) @ replace_space_runs r True cs
      else c # replace_space_runs r False cs)"

text \<open>Decimal rendering of a non-negative integer, as a template literal prints it.\<close>

fun show_nat :: "nat \<Rightarrow> jstring" where
  "show_nat n = (if n < 10 then [48 + n] else show_nat (n div 10) @ [48 + n mod 10])"

declare show_nat.simps [simp del]

fun join :: "jstring \<Rightarrow> jstring list \<Rightarrow> jstring" where
  "join sep [] = []"
| "join sep [x] = x"
| "join sep (x # y # ys) = x @ sep @ join sep (y # ys)"

section \<open>The query validator (agents/wikidata-agent.ts)\<close>

text \<open>
  The SPARQL grammar is the third-party \<open>sparqljs\<close> parser. It is a parameter of the
  model: \<open>Inl msg\<close> is a thrown parse error with message \<open>msg\<close>, \<open>Inr ()\<close> a successful
  parse (the syntax tree is discarded by the caller).
\<close>

type_synonym parser = "jstring \<Rightarrow> jstring + unit"

text \<open>Two parsers to run the validator with: one accepts every query, one rejects
  every query with the given message.\<close>

definition accepting_parser :: parser where
  "accepting_parser q = Inr ()"

definition rejecting_parser :: "jstring \<Rightarrow> parser" where
  "rejecting_parser msg q = Inl msg"

record verdict =
  valid :: bool
  error :: "jstring option"

definition DANGEROUS_KEYWORDS :: "jstring list" where
  "DANGEROUS_KEYWORDS =
     map ascii [''DELETE'', ''INSERT'', ''DROP'', ''CREATE'', ''CLEAR'', ''LOAD'']"

definition validate :: "case_table \<Rightarrow> parser \<Rightarrow> jstring \<Rightarrow> verdict" where
  "validate U parse queryString =
     (case parse queryString of
        Inl msg \<Rightarrow> \<lparr>valid = False, error = Some (ascii ''SPARQL syntax error: '' @ msg)\<rparr>
      | Inr _ \<Rightarrow>
          (let upperQuery = toUpperCase U queryString in
           case find (js_includes upperQuery) DANGEROUS_KEYWORDS of
             Some keyword \<Rightarrow>
               \<lparr>valid = False,
                error = Some (ascii ''Dangerous SPARQL keyword detected: '' @ keyword @
                              ascii ''. Only read-only queries are allowed.'')\<rparr>
           | None \<Rightarrow> \<lparr>valid = True, error = None\<rparr>))"

text \<open>
  The specification's wording, "contains the keyword case-insensitively as a substring":
  some contiguous block of the query equals the keyword up to the case of the letters
  A to Z. The comparison folds both sides to lower case; it does not use
  \<open>toUpperCase\<close> and does not depend on the case table.
\<close>

definition ascii_lower :: "nat \<Rightarrow> nat" where
  "ascii_lower c = (if 65 \<le> c \<and> c \<le> 90 then c + 32 else c)"

definition eq_ignore_case :: "jstring \<Rightarrow> jstring \<Rightarrow> bool" where
  "eq_ignore_case a b = (map ascii_lower a = map ascii_lower b)"

fun contains_ci :: "jstring \<Rightarrow> jstring \<Rightarrow> bool" where
  "contains_ci [] k = (k = [])"
| "contains_ci (c # cs) k =
     (eq_ignore_case (take (length k) (c # cs)) k \<or> contains_ci cs k)"

definition is_ascii :: "jstring \<Rightarrow> bool" where
  "is_ascii s = list_all (\<lambda>c. c < 128) s"

section \<open>The Wikidata agent (agents/wikidata-agent.ts)\<close>

text \<open>
  An HTTP GET is described by the request the agent builds. \<open>timeout\<close> is the request's
  timeout option in milliseconds, \<open>None\<close> when the call site passes none. The network is
  a parameter: a function from the request to either a failure or the response body.
  Each agent returns the list of requests it issued next to its outcome, so that "no
  network call" is the empty list. Response bodies have the shape of the TypeScript
  interfaces they are cast to.
\<close>

record http_request =
  url :: jstring
  params :: "(jstring \<times> jstring) list"
  headers :: "(jstring \<times> jstring) list"
  timeout :: "nat option"

text \<open>An axios failure: \<open>error.response?.status\<close> and \<open>error.message\<close>.\<close>

record axios_error =
  status :: "nat option"
  message :: jstring

record binding_value =
  btype :: jstring
  bvalue :: jstring

record sparql_head =
  vars :: "jstring list"

record sparql_results =
  bindings :: "(jstring \<times> binding_value) list list"

record WikidataQueryResult =
  head :: sparql_head
  results :: sparql_results

definition WIKIDATA_ENDPOINT :: jstring where
  "WIKIDATA_ENDPOINT = ascii ''https://query.wikidata.org/sparql''"

definition wikidata_request :: "jstring \<Rightarrow> http_request" where
  "wikidata_request sparqlQuery =
     \<lparr>url = WIKIDATA_ENDPOINT,
      params = [(ascii ''query'', sparqlQuery), (ascii ''format'', ascii ''json'')],
      headers = [(ascii ''User-Agent'', ascii ''WikidAI-PoC/0.1 (Educational Project)'')],
      timeout = Some 10000\<rparr>"

definition wikidata_execute ::
  "case_table \<Rightarrow> parser \<Rightarrow> (http_request \<Rightarrow> axios_error + WikidataQueryResult) \<Rightarrow> jstring
     \<Rightarrow> http_request list \<times> (jstring + WikidataQueryResult)" where
  "wikidata_execute U parse axios_get sparqlQuery =
     (let validation = validate U parse sparqlQuery in
      if \<not> valid validation then
        ([], Inl (ascii ''SPARQL validation failed: '' @
                  (case error validation of Some e \<Rightarrow> e | None \<Rightarrow> ascii ''undefined'')))
      else
        (let req = wikidata_request sparqlQuery in
         ([req],
          case axios_get req of
            Inr data \<Rightarrow> Inr data
          | Inl err \<Rightarrow> Inl (ascii ''Wikidata query failed: '' @ message err))))"

text \<open>
  \<open>binding[varName]\<close> on an object decoded from JSON: an own property gives the bound
  term; a name the object does not own but \<open>Object.prototype\<close> has gives a truthy value
  whose \<open>value\<close> is \<open>undefined\<close>; any other name gives \<open>undefined\<close>.
\<close>

definition object_prototype_keys :: "jstring list" where
  "object_prototype_keys =
     map ascii [''constructor'', ''__proto__'', ''hasOwnProperty'', ''isPrototypeOf'',
                ''propertyIsEnumerable'', ''toLocaleString'', ''toString'', ''valueOf'',
                ''__defineGetter__'', ''__defineSetter__'', ''__lookupGetter__'',
                ''__lookupSetter__'']"

definition binding_text :: "(jstring \<times> binding_value) list \<Rightarrow> jstring \<Rightarrow> jstring" where
  "binding_text binding varName =
     (case map_of binding varName of
        Some b \<Rightarrow> replace_first (ascii ''Label'') [] varName @ ascii '': '' @ bvalue b @ ascii '' ''
      | None \<Rightarrow>
          if varName \<in> set object_prototype_keys
          then replace_first (ascii ''Label'') [] varName @ ascii '': undefined ''
          else [])"

definition wikidata_formatResults :: "WikidataQueryResult \<Rightarrow> jstring" where
  "wikidata_formatResults res =
     (let bs = bindings (results res); vs = vars (head res) in
      if length bs = 0 then ascii ''No results found.''
      else
        trim
          (ascii ''Found '' @ show_nat (length bs) @ ascii '' result(s):'' @ nl @ nl @
           concat
             (map (\<lambda>(idx, binding).
                     show_nat (idx + 1) @ ascii ''. '' @
                     concat (map (binding_text binding) vs) @ nl)
                (enumerate 0 (take 10 bs))) @
           (if length bs > 10
            then nl @ ascii ''... and '' @ show_nat (length bs - 10) @ ascii '' more results''
            else [])))"

section \<open>The Wikipedia agent (agents/wikipedia-agent.ts)\<close>

text \<open>
  \<open>encodeURIComponent\<close> is a built-in of the engine and a parameter of the model:
  \<open>Inr\<close> the encoded text, or \<open>Inl\<close> the message of the \<open>URIError\<close> it throws on a
  lone surrogate.
\<close>

type_synonym uri_encoder = "jstring \<Rightarrow> jstring + jstring"

text \<open>
  \<open>wp_page\<close> is \<open>summary.content_urls?.desktop?.page\<close>: \<open>None\<close> when any link of the
  optional chain is missing.
\<close>

record WikipediaSummary =
  wp_title :: jstring
  wp_extract :: jstring
  wp_page :: "jstring option"

definition WIKIPEDIA_API :: jstring where
  "WIKIPEDIA_API = ascii ''https://en.wikipedia.org/api/rest_v1''"

definition wikipedia_request :: "jstring \<Rightarrow> http_request" where
  "wikipedia_request encodedTerm =
     \<lparr>url = WIKIPEDIA_API @ ascii ''/page/summary/'' @ encodedTerm,
      params = [],
      headers = [(ascii ''User-Agent'', ascii ''WikidAI-PoC/0.1 (Educational Project)'')],
      timeout = Some 8000\<rparr>"

text \<open>
  The whole body of \<open>execute\<close> is inside the \<open>try\<close>: an error thrown while the URL is
  built has no \<open>response\<close> and is rethrown by the last line of the \<open>catch\<close>.
\<close>

definition wikipedia_execute ::
  "uri_encoder \<Rightarrow> (http_request \<Rightarrow> axios_error + WikipediaSummary) \<Rightarrow> jstring
     \<Rightarrow> http_request list \<times> (jstring + WikipediaSummary)" where
  "wikipedia_execute encodeURIComponent axios_get term =
     (let normalizedTerm = replace_space_runs (ascii ''_'') False (trim term) in
      case encodeURIComponent normalizedTerm of
        Inl msg \<Rightarrow> ([], Inl (ascii ''Wikipedia request failed: '' @ msg))
      | Inr encodedTerm \<Rightarrow>
          (let req = wikipedia_request encodedTerm in
           ([req],
            case axios_get req of
              Inr data \<Rightarrow> Inr data
            | Inl err \<Rightarrow>
                if status err = Some 404
                then Inl (ascii ''Wikipedia article not found for: '' @ dq @ term @ dq)
                else Inl (ascii ''Wikipedia request failed: '' @ message err))))"

definition link_glyph :: jstring where
  "link_glyph = [55357, 56599]"

definition formatSummary :: "WikipediaSummary \<Rightarrow> jstring" where
  "formatSummary summary =
     (let output = ascii ''**'' @ wp_title summary @ ascii ''**'' @ nl @ nl @ wp_extract summary in
      case wp_page summary of
        Some page \<Rightarrow>
          if page \<noteq> [] then output @ nl @ nl @ link_glyph @ ascii '' Read more: '' @ page
          else output
      | None \<Rightarrow> output)"

section \<open>The Nominatim agent (agents/nominatim-agent.ts)\<close>

text \<open>
  \<open>fetch\<close> either rejects (\<open>Inl\<close> the message) or resolves to a response with its \<open>ok\<close>
  flag, its status text and its body; \<open>json()\<close> on the body gives the decoded value or
  throws. The call sites of \<open>fetch\<close> pass no abort signal and no timeout, so the
  requests they build carry none.
\<close>

record 'a fetch_response =
  ok :: bool
  statusText :: jstring
  json :: "jstring + 'a"

record NominatimResult =
  lat :: jstring
  lon :: jstring
  display_name :: jstring
  place_id :: nat

definition nominatim_request :: "jstring \<Rightarrow> http_request" where
  "nominatim_request encodedQuery =
     \<lparr>url = ascii ''https://nominatim.openstreetmap.org'' @ ascii ''/search?q='' @
            encodedQuery @ ascii ''&format=json&limit=5'',
      params = [],
      headers = [(ascii ''User-Agent'', ascii ''WikidAI/1.0 (Educational PoC)'')],
      timeout = None\<rparr>"

definition geocode ::
  "uri_encoder \<Rightarrow> (http_request \<Rightarrow> jstring + NominatimResult list fetch_response) \<Rightarrow> jstring
     \<Rightarrow> http_request list \<times> (jstring + NominatimResult list)" where
  "geocode encodeURIComponent fetch query =
     (case encodeURIComponent query of
        Inl msg \<Rightarrow> ([], Inl msg)
      | Inr encodedQuery \<Rightarrow>
          (let req = nominatim_request encodedQuery in
           ([req],
            case fetch req of
              Inl err \<Rightarrow> Inl err
            | Inr response \<Rightarrow>
                if \<not> ok response then Inl (ascii ''Nominatim API error: '' @ statusText response)
                else json response)))"

definition nominatim_formatResults :: "NominatimResult list \<Rightarrow> jstring" where
  "nominatim_formatResults rs =
     (if length rs = 0 then ascii ''No locations found.''
      else if length rs = 1 then
        (let r = hd rs in
         ascii ''Location: '' @ display_name r @ nl @
         ascii ''Coordinates: lat: '' @ lat r @ ascii '', lon: '' @ lon r)
      else
        join nl
          (map (\<lambda>(i, r). show_nat (i + 1) @ ascii ''. '' @ display_name r @
                          ascii '' (lat: '' @ lat r @ ascii '', lon: '' @ lon r @ ascii '')'')
             (enumerate 0 rs)))"

section \<open>The Open-Meteo agent (agents/openmeteo-agent.ts)\<close>

text \<open>
  JavaScript numbers in response bodies are modelled as reals; their rendering in a
  template literal (\<open>Number::toString\<close>) is the parameter \<open>num_str\<close>. Latitude and
  longitude enter \<open>getWeather\<close> only through template literals, so the model passes
  their rendering.
\<close>

record current_weather_data =
  temperature :: real
  windspeed :: real
  weathercode :: real
  cw_time :: jstring

record daily_data =
  d_time :: "jstring list"
  temperature_2m_max :: "real list"
  temperature_2m_min :: "real list"
  precipitation_sum :: "real list"

record WeatherData =
  latitude :: real
  longitude :: real
  current_weather :: current_weather_data
  daily :: "daily_data option"

definition weather_request :: "jstring \<Rightarrow> jstring \<Rightarrow> bool \<Rightarrow> http_request" where
  "weather_request latitude_text longitude_text includeForecast =
     \<lparr>url = ascii ''https://api.open-meteo.com/v1'' @ ascii ''/forecast?latitude='' @
            latitude_text @ ascii ''&longitude='' @ longitude_text @
            ascii ''&current_weather=true'' @
            (if includeForecast
             then ascii ''&daily=temperature_2m_max,temperature_2m_min,precipitation_sum&timezone=auto''
             else []),
      params = [],
      headers = [],
      timeout = None\<rparr>"

definition getWeather ::
  "(http_request \<Rightarrow> jstring + WeatherData fetch_response) \<Rightarrow> jstring \<Rightarrow> jstring \<Rightarrow> bool
     \<Rightarrow> http_request list \<times> (jstring + WeatherData)" where
  "getWeather fetch latitude_text longitude_text includeForecast =
     (let req = weather_request latitude_text longitude_text includeForecast in
      ([req],
       case fetch req of
         Inl err \<Rightarrow> Inl err
       | Inr response \<Rightarrow>
           if \<not> ok response then Inl (ascii ''Open-Meteo API error: '' @ statusText response)
           else json response))"

definition weatherCodes :: "(real \<times> jstring) list" where
  "weatherCodes =
     [(0, ascii ''Clear sky''), (1, ascii ''Mainly clear''), (2, ascii ''Partly cloudy''),
      (3, ascii ''Overcast''), (45, ascii ''Foggy''), (48, ascii ''Depositing rime fog''),
      (51, ascii ''Light drizzle''), (61, ascii ''Slight rain''), (63, ascii ''Moderate rain''),
      (65, ascii ''Heavy rain''), (71, ascii ''Slight snow''),
      (80, ascii ''Slight rain showers''), (95, ascii ''Thunderstorm'')]"

definition degree_glyph :: jstring where
  "degree_glyph = [176]"

definition variation_selector :: jstring where
  "variation_selector = [65039]"

text \<open>\<open>xs[i]\<close> inside a template literal: an index out of range prints \<open>undefined\<close>.\<close>

definition index_text :: "('a \<Rightarrow> jstring) \<Rightarrow> 'a list \<Rightarrow> nat \<Rightarrow> jstring" where
  "index_text render xs i = (if i < length xs then render (xs ! i) else ascii ''undefined'')"

definition formatWeather :: "(real \<Rightarrow> jstring) \<Rightarrow> WeatherData \<Rightarrow> jstring" where
  "formatWeather num_str data =
     (let cw = current_weather data;
          condition = (case map_of weatherCodes (weathercode cw) of
                         Some c \<Rightarrow> c
                       | None \<Rightarrow> ascii ''Unknown'');
          result =
            [55357, 56525] @ ascii '' Location: lat: '' @
              num_str (latitude data) @ ascii '', lon: '' @ num_str (longitude data) @ nl @
            [55356, 57121] @ variation_selector @
              ascii '' Current temperature: '' @ num_str (temperature cw) @ degree_glyph @
              ascii ''C'' @ nl @
            [55357, 56488] @ ascii '' Wind speed: '' @
              num_str (windspeed cw) @ ascii '' km/h'' @ nl @
            [9729] @ variation_selector @ ascii '' Conditions: '' @ condition @ nl @
            [55357, 56656] @ ascii '' Time: '' @ cw_time cw
      in case daily data of
           None \<Rightarrow> result
         | Some d \<Rightarrow>
             result @ nl @ nl @ [55357, 56517] @
             ascii '' Forecast (next 3 days):'' @ nl @
             concat
               (map (\<lambda>i. index_text id (d_time d) i @ ascii '': '' @
                          index_text num_str (temperature_2m_min d) i @ degree_glyph @
                          ascii ''C - '' @
                          index_text num_str (temperature_2m_max d) i @ degree_glyph @
                          ascii ''C, '' @
                          ascii ''precipitation: '' @ index_text num_str (precipitation_sum d) i @
                          ascii ''mm'' @ nl)
                  [0 ..< min 3 (length (d_time d))]))"

section \<open>The orchestration loop (orchestrator.ts)\<close>

text \<open>
  A function call requested by the model: its name and its argument object. The
  argument object is decoded JSON: an association list with distinct keys from property
  names to JSON values, or \<open>None\<close> when the call carries no \<open>args\<close>.
\<close>

datatype jvalue =
    JString jstring
  | JNumber real
  | JBoolean bool
  | JNull
  | JArray "jvalue list"
  | JObject "(jstring \<times> jvalue) list"

record function_call =
  name :: jstring
  args :: "(jstring \<times> jvalue) list option"

text \<open>
  What an element of \<open>functionResponses\<close> carries: the name of the call and either
  \<open>{ result }\<close> (\<open>Inr\<close>) or \<open>{ error: message }\<close> (\<open>Inl\<close>).
\<close>

record function_response =
  fr_name :: jstring
  fr_response :: "jstring + jstring"

record agent_call =
  agent :: jstring
  call_params :: "(jstring \<times> jvalue) list option"
  call_response :: jstring

record QueryResponse =
  query :: jstring
  thoughts :: "jstring list"
  agentCalls :: "agent_call list"
  answer :: jstring
  latencyMs :: int

record model_part =
  thought :: bool
  part_text :: "jstring option"

text \<open>
  A response of the chat session, as the loop reads it: the parts of the first
  candidate (\<open>None\<close> when the optional chain is broken), the outcome of
  \<open>functionCalls()\<close> (\<open>Inr None\<close> for \<open>undefined\<close>) and the outcome of \<open>text()\<close>. Both
  accessors belong to the SDK and may throw: \<open>Inl\<close> the message.
\<close>

record model_response =
  parts :: "model_part list option"
  functionCalls :: "jstring + function_call list option"
  response_text :: "jstring + jstring"

datatype chat_message = UserText jstring | ToolResults "function_response list"

type_synonym history = "(jstring \<times> jstring) list"

record network =
  sparql_get :: "http_request \<Rightarrow> axios_error + WikidataQueryResult"
  summary_get :: "http_request \<Rightarrow> axios_error + WikipediaSummary"
  nominatim_fetch :: "http_request \<Rightarrow> jstring + NominatimResult list fetch_response"
  meteo_fetch :: "http_request \<Rightarrow> jstring + WeatherData fetch_response"

text \<open>
  Everything outside the repository that an execution depends on:
  \<^item> \<open>case_map\<close>, the Unicode uppercase mappings; \<open>sparql_parser\<close>, the SPARQL parser;
    \<open>uri_encode\<close>, the built-in \<open>encodeURIComponent\<close>; \<open>number_to_string\<close>, the
    rendering of numbers;
  \<^item> \<open>to_text v\<close>, the conversion to a string of an argument \<open>v\<close> that is not a
    string (\<open>None\<close> for \<open>undefined\<close>), or the message of the error it throws;
  \<^item> \<open>type_error v p\<close>, the engine's message for the \<open>TypeError\<close> of reading the
    property or calling the method \<open>p\<close> on a value \<open>v\<close> that does not have it;
  \<^item> \<open>network_at turn i\<close>, what the network answers to call number \<open>i\<close> of turn \<open>turn\<close>;
  \<^item> \<open>sendMessage hist sent\<close>, the answer of the chat session started with history
    \<open>hist\<close> to the last message of \<open>sent\<close>, given all messages sent so far
    (\<open>Inl\<close> when the call throws);
  \<^item> \<open>date_now k\<close>, reading number \<open>k\<close> of \<open>Date.now()\<close>.
\<close>

record world =
  case_map :: case_table
  sparql_parser :: parser
  uri_encode :: uri_encoder
  number_to_string :: "real \<Rightarrow> jstring"
  to_text :: "jvalue option \<Rightarrow> jstring + jstring"
  type_error :: "jvalue option \<Rightarrow> jstring \<Rightarrow> jstring"
  network_at :: "nat \<Rightarrow> nat \<Rightarrow> network"
  sendMessage :: "history \<Rightarrow> chat_message list \<Rightarrow> jstring + model_response"
  date_now :: "nat \<Rightarrow> int"

text \<open>An argument used where a string is expected: a string is itself.\<close>

definition js_to_string :: "world \<Rightarrow> jvalue option \<Rightarrow> jstring + jstring" where
  "js_to_string w v = (case v of Some (JString s) \<Rightarrow> Inr s | _ \<Rightarrow> to_text w v)"

definition truthy :: "jvalue option \<Rightarrow> bool" where
  "truthy v =
     (case v of
        None \<Rightarrow> False
      | Some (JString s) \<Rightarrow> s \<noteq> []
      | Some (JNumber n) \<Rightarrow> n \<noteq> 0
      | Some (JBoolean b) \<Rightarrow> b
      | Some JNull \<Rightarrow> False
      | Some (JArray _) \<Rightarrow> True
      | Some (JObject _) \<Rightarrow> True)"

text \<open>
  The body of the \<open>try\<close> block up to the end of the \<open>switch\<close>: \<open>Inr\<close> the formatted
  result, \<open>Inl\<close> the message of whatever was thrown. Reading a property of a missing
  argument object throws; \<open>substring\<close> and \<open>trim\<close> on an argument that is not a string
  throw, the second inside the agent's own \<open>try\<close> and after the argument was
  rendered for the log line before that \<open>try\<close>.
\<close>

definition dispatch :: "world \<Rightarrow> network \<Rightarrow> function_call \<Rightarrow> jstring + jstring" where
  "dispatch w net call =
     (if name call = ascii ''query_wikidata'' then
        (case args call of
           None \<Rightarrow> Inl (type_error w None (ascii ''sparql_query''))
         | Some a \<Rightarrow>
             (case map_of a (ascii ''sparql_query'') of
                Some (JString sparqlQuery) \<Rightarrow>
                  (case snd (wikidata_execute (case_map w) (sparql_parser w) (sparql_get net)
                               sparqlQuery) of
                     Inl err \<Rightarrow> Inl err
                   | Inr wikidataResult \<Rightarrow> Inr (wikidata_formatResults wikidataResult))
              | v \<Rightarrow> Inl (type_error w v (ascii ''substring''))))
      else if name call = ascii ''get_wikipedia_summary'' then
        (case args call of
           None \<Rightarrow> Inl (type_error w None (ascii ''term''))
         | Some a \<Rightarrow>
             (case map_of a (ascii ''term'') of
                Some (JString term) \<Rightarrow>
                  (case snd (wikipedia_execute (uri_encode w) (summary_get net) term) of
                     Inl err \<Rightarrow> Inl err
                   | Inr summary \<Rightarrow> Inr (formatSummary summary))
              | v \<Rightarrow>
                  (case to_text w v of
                     Inl err \<Rightarrow> Inl err
                   | Inr shown \<Rightarrow>
                       Inl (ascii ''Wikipedia request failed: '' @
                            type_error w v (ascii ''trim'')))))
      else if name call = ascii ''geocode_location'' then
        (case args call of
           None \<Rightarrow> Inl (type_error w None (ascii ''query''))
         | Some a \<Rightarrow>
             (case js_to_string w (map_of a (ascii ''query'')) of
                Inl err \<Rightarrow> Inl err
              | Inr query_text \<Rightarrow>
                  (case snd (geocode (uri_encode w) (nominatim_fetch net) query_text) of
                     Inl err \<Rightarrow> Inl err
                   | Inr locations \<Rightarrow> Inr (nominatim_formatResults locations))))
      else if name call = ascii ''get_weather'' then
        (case args call of
           None \<Rightarrow> Inl (type_error w None (ascii ''latitude''))
         | Some a \<Rightarrow>
             (case js_to_string w (map_of a (ascii ''latitude'')) of
                Inl err \<Rightarrow> Inl err
              | Inr latitude_text \<Rightarrow>
                  (case js_to_string w (map_of a (ascii ''longitude'')) of
                     Inl err \<Rightarrow> Inl err
                   | Inr longitude_text \<Rightarrow>
                       (case snd (getWeather (meteo_fetch net) latitude_text longitude_text
                                    (truthy (map_of a (ascii ''include_forecast'')))) of
                          Inl err \<Rightarrow> Inl err
                        | Inr weather \<Rightarrow> Inr (formatWeather (number_to_string w) weather)))))
      else Inl (ascii ''Unknown function: '' @ name call))"

text \<open>
  One callback of \<open>functionCalls.map\<close>: the function response it returns and the entry
  it pushes on \<open>agentCalls\<close>, if any.
\<close>

definition handle_call ::
  "world \<Rightarrow> network \<Rightarrow> function_call \<Rightarrow> function_response \<times> agent_call option" where
  "handle_call w net call =
     (case dispatch w net call of
        Inr result \<Rightarrow>
          (\<lparr>fr_name = name call, fr_response = Inr result\<rparr>,
           Some \<lparr>agent = name call, call_params = args call, call_response = result\<rparr>)
      | Inl err \<Rightarrow> (\<lparr>fr_name = name call, fr_response = Inl err\<rparr>, None))"

text \<open>
  \<open>Promise.all\<close> over the callbacks. The responses come back in the order of the
  calls. The model runs the callbacks one after the other, so the pushes on
  \<open>agentCalls\<close> are in call order too; the source pushes in completion order, which
  the claims below do not depend on.
\<close>

definition run_calls ::
  "world \<Rightarrow> nat \<Rightarrow> function_call list \<Rightarrow> (function_response \<times> agent_call option) list" where
  "run_calls w turn calls =
     map (\<lambda>(i, call). handle_call w (network_at w turn i) call) (enumerate 0 calls)"

definition extract_thoughts :: "model_response \<Rightarrow> jstring list" where
  "extract_thoughts r =
     (case parts r of
        None \<Rightarrow> []
      | Some ps \<Rightarrow>
          map (\<lambda>p. case part_text p of
                      Some t \<Rightarrow> if t \<noteq> [] then t else ascii ''Thinking...''
                    | None \<Rightarrow> ascii ''Thinking...'')
            (filter thought ps))"

text \<open>
  The \<open>while (true)\<close> loop. \<open>sent\<close> is the list of messages passed to
  \<open>chat.sendMessage\<close> so far; the function returns it next to the outcome
  (\<open>Inl\<close> when the SDK throws). \<open>resp\<close> is the answer to the last message sent and
  \<open>turn\<close> the loop counter.
\<close>

function multi_turn_loop ::
  "world \<Rightarrow> history \<Rightarrow> jstring \<Rightarrow> chat_message list \<Rightarrow> jstring list \<Rightarrow> agent_call list
     \<Rightarrow> model_response \<Rightarrow> nat \<Rightarrow> (jstring + QueryResponse) \<times> chat_message list" where
  "multi_turn_loop w hist userQuery sent ths calls resp turn =
     (let ths' = ths @ extract_thoughts resp in
      case functionCalls resp of
        Inl err \<Rightarrow> (Inl err, sent)
      | Inr requested \<Rightarrow>
          if requested = None \<or> length (the requested) = 0 then
            (case response_text resp of
               Inl err \<Rightarrow> (Inl err, sent)
             | Inr finalText \<Rightarrow>
                 (Inr \<lparr>query = userQuery, thoughts = ths', agentCalls = calls,
                       answer = finalText, latencyMs = date_now w 1 - date_now w 0\<rparr>,
                  sent))
          else
            (let outcomes = run_calls w turn (the requested);
                 functionResponses = map fst outcomes;
                 calls' = calls @ List.map_filter snd outcomes;
                 sent' = sent @ [ToolResults functionResponses]
             in case sendMessage w hist sent' of
                  Inl err \<Rightarrow> (Inl err, sent')
                | Inr resp' \<Rightarrow>
                    if turn + 1 > 10 then
                      (Inr \<lparr>query = userQuery, thoughts = ths', agentCalls = calls',
                            answer = ascii ''Query processing incomplete'',
                            latencyMs = date_now w 1 - date_now w 0\<rparr>,
                       sent')
                    else multi_turn_loop w hist userQuery sent' ths' calls' resp' (turn + 1)))"
  by pat_completeness auto
termination
  by (relation "measure (\<lambda>(w, hist, userQuery, sent, ths, calls, resp, turn). 11 - turn)")
     auto

declare multi_turn_loop.simps [simp del]

definition executeQuery ::
  "world \<Rightarrow> history \<Rightarrow> jstring \<Rightarrow> (jstring + QueryResponse) \<times> chat_message list" where
  "executeQuery w conversationHistory userQuery =
     (case sendMessage w conversationHistory [UserText userQuery] of
        Inl err \<Rightarrow> (Inl err, [UserText userQuery])
      | Inr resp \<Rightarrow>
          multi_turn_loop w conversationHistory userQuery [UserText userQuery] [] [] resp 1)"

section \<open>The conversation store (conversation-manager.ts)\<close>

datatype role = User | Assistant

text \<open>
  Dates are their \<open>getTime()\<close> values, integers in milliseconds. Latencies are
  differences of two readings of \<open>Date.now()\<close>, integers too; sums of such integers
  are exact in JavaScript's numbers as long as they stay below \<open>2 ^ 53\<close>.
\<close>

record ConversationMessage =
  msg_id :: jstring
  msg_role :: role
  content :: jstring
  timestamp :: int
  queryResponse :: "QueryResponse option"

text \<open>
  \<open>agentsUsed\<close> is a \<open>Set\<close> of strings: a list without repetition, in insertion order.
\<close>

record conversation_metadata =
  totalQueries :: nat
  totalLatencyMs :: int
  agentsUsed :: "jstring list"

record Conversation =
  conv_id :: jstring
  title :: jstring
  messages :: "ConversationMessage list"
  createdAt :: int
  updatedAt :: int
  metadata :: "conversation_metadata option"

text \<open>
  The \<open>Map\<close> from identifiers to conversations is an association list in insertion
  order: \<open>set\<close> on a key already present keeps its place, \<open>set\<close> on a new key appends,
  and \<open>size\<close> is the length of the list. \<open>maxConversations\<close> is an integer.
\<close>

record ConversationManager =
  conversations :: "(jstring \<times> Conversation) list"
  maxConversations :: int

definition new_manager :: "int \<Rightarrow> ConversationManager" where
  "new_manager maxConversations' = \<lparr>conversations = [], maxConversations = maxConversations'\<rparr>"

definition map_set :: "'k \<Rightarrow> 'v \<Rightarrow> ('k \<times> 'v) list \<Rightarrow> ('k \<times> 'v) list" where
  "map_set k v m =
     (if k \<in> fst ` set m then map (\<lambda>(k', v'). if k' = k then (k, v) else (k', v')) m
      else m @ [(k, v)])"

definition map_delete :: "'k \<Rightarrow> ('k \<times> 'v) list \<Rightarrow> ('k \<times> 'v) list" where
  "map_delete k m = filter (\<lambda>(k', v'). k' \<noteq> k) m"

text \<open>
  \<open>Array.prototype.sort\<close> is stable; with the comparator
  \<open>b.updatedAt.getTime() - a.updatedAt.getTime()\<close> it sorts by decreasing \<open>updatedAt\<close>
  and keeps conversations with equal dates in the order of the map.
\<close>

definition listConversations :: "ConversationManager \<Rightarrow> Conversation list" where
  "listConversations mgr = sort_key (\<lambda>c. - updatedAt c) (map snd (conversations mgr))"

text \<open>\<open>xs.slice(start)\<close>: a negative \<open>start\<close> counts from the end.\<close>

definition js_slice_from :: "int \<Rightarrow> 'a list \<Rightarrow> 'a list" where
  "js_slice_from start xs =
     (if start < 0 then drop (nat (int (length xs) + start)) xs else drop (nat start) xs)"

definition cleanupOldConversations :: "ConversationManager \<Rightarrow> ConversationManager" where
  "cleanupOldConversations mgr =
     (let sorted = listConversations mgr;
          toDelete = js_slice_from (maxConversations mgr) sorted
      in mgr\<lparr>conversations := fold (\<lambda>conv m. map_delete (conv_id conv) m) toDelete
                                 (conversations mgr)\<rparr>)"

text \<open>
  \<open>generateId()\<close> and \<open>new Date()\<close> read the clock and the random generator: the
  identifier and the dates they give are arguments of the operations.
\<close>

definition createConversation ::
  "jstring option \<Rightarrow> jstring \<Rightarrow> int \<Rightarrow> int \<Rightarrow> ConversationManager
     \<Rightarrow> Conversation \<times> ConversationManager" where
  "createConversation title_arg new_id created updated mgr =
     (let default_title = ascii ''Conversation '' @ show_nat (length (conversations mgr) + 1);
          conversation =
            \<lparr>conv_id = new_id,
             title = (case title_arg of
                        Some t \<Rightarrow> if t \<noteq> [] then t else default_title
                      | None \<Rightarrow> default_title),
             messages = [],
             createdAt = created,
             updatedAt = updated,
             metadata = Some \<lparr>totalQueries = 0, totalLatencyMs = 0, agentsUsed = []\<rparr>\<rparr>;
          mgr1 = mgr\<lparr>conversations := map_set new_id conversation (conversations mgr)\<rparr>
      in (conversation,
          if int (length (conversations mgr1)) > maxConversations mgr1
          then cleanupOldConversations mgr1
          else mgr1))"

definition getConversation :: "ConversationManager \<Rightarrow> jstring \<Rightarrow> Conversation option" where
  "getConversation mgr cid = map_of (conversations mgr) cid"

definition generateTitle :: "jstring \<Rightarrow> jstring" where
  "generateTitle firstMessage =
     (let maxLength = 50 in
      if length firstMessage \<le> maxLength then firstMessage
      else take (maxLength - 3) firstMessage @ ascii ''...'')"

definition addUserMessage ::
  "jstring \<Rightarrow> jstring \<Rightarrow> jstring \<Rightarrow> int \<Rightarrow> int \<Rightarrow> ConversationManager
     \<Rightarrow> jstring + ConversationMessage \<times> ConversationManager" where
  "addUserMessage conversationId content' new_id stamp updated mgr =
     (case getConversation mgr conversationId of
        None \<Rightarrow> Inl (ascii ''Conversation '' @ conversationId @ ascii '' not found'')
      | Some conversation \<Rightarrow>
          (let message = \<lparr>msg_id = new_id, msg_role = User, content = content',
                          timestamp = stamp, queryResponse = None\<rparr>;
               c1 = conversation\<lparr>messages := messages conversation @ [message],
                                 updatedAt := updated\<rparr>;
               c2 = (if length (filter (\<lambda>m. msg_role m = User) (messages c1)) = 1
                     then c1\<lparr>title := generateTitle content'\<rparr>
                     else c1)
           in Inr (message,
                   mgr\<lparr>conversations := map_set conversationId c2 (conversations mgr)\<rparr>)))"

definition set_add :: "'a \<Rightarrow> 'a list \<Rightarrow> 'a list" where
  "set_add x xs = (if x \<in> set xs then xs else xs @ [x])"

definition addAssistantMessage ::
  "jstring \<Rightarrow> jstring \<Rightarrow> QueryResponse \<Rightarrow> jstring \<Rightarrow> int \<Rightarrow> int \<Rightarrow> ConversationManager
     \<Rightarrow> jstring + ConversationMessage \<times> ConversationManager" where
  "addAssistantMessage conversationId content' qr new_id stamp updated mgr =
     (case getConversation mgr conversationId of
        None \<Rightarrow> Inl (ascii ''Conversation '' @ conversationId @ ascii '' not found'')
      | Some conversation \<Rightarrow>
          (let message = \<lparr>msg_id = new_id, msg_role = Assistant, content = content',
                          timestamp = stamp, queryResponse = Some qr\<rparr>;
               c1 = conversation\<lparr>messages := messages conversation @ [message],
                                 updatedAt := updated\<rparr>;
               c2 = (case metadata c1 of
                       Some md \<Rightarrow>
                         c1\<lparr>metadata :=
                              Some \<lparr>totalQueries = totalQueries md + 1,
                                    totalLatencyMs = totalLatencyMs md + latencyMs qr,
                                    agentsUsed = fold (\<lambda>call used. set_add (agent call) used)
                                                   (agentCalls qr) (agentsUsed md)\<rparr>\<rparr>
                     | None \<Rightarrow> c1)
           in Inr (message,
                   mgr\<lparr>conversations := map_set conversationId c2 (conversations mgr)\<rparr>)))"

definition deleteConversation :: "jstring \<Rightarrow> ConversationManager \<Rightarrow> bool \<times> ConversationManager" where
  "deleteConversation cid mgr =
     (cid \<in> fst ` set (conversations mgr),
      mgr\<lparr>conversations := map_delete cid (conversations mgr)\<rparr>)"

definition clearAll :: "ConversationManager \<Rightarrow> ConversationManager" where
  "clearAll mgr = mgr\<lparr>conversations := []\<rparr>"

text \<open>
  The stores a running manager can hold: those built from an empty one by its public
  operations, with any identifiers and dates.
\<close>

inductive reachable :: "ConversationManager \<Rightarrow> bool" where
  init: "reachable (new_manager m)"
| create: "reachable mgr \<Longrightarrow> reachable (snd (createConversation t i c u mgr))"
| user: "reachable mgr \<Longrightarrow> addUserMessage cid txt i s u mgr = Inr (msg, mgr')
           \<Longrightarrow> reachable mgr'"
| assistant: "reachable mgr \<Longrightarrow> addAssistantMessage cid txt qr i s u mgr = Inr (msg, mgr')
           \<Longrightarrow> reachable mgr'"
| delete: "reachable mgr \<Longrightarrow> reachable (snd (deleteConversation cid mgr))"
| clear: "reachable mgr \<Longrightarrow> reachable (clearAll mgr)"

text \<open>A run of \<open>createConversation\<close> calls, each with its title, identifier and dates.\<close>

fun create_all ::
  "(jstring option \<times> jstring \<times> int \<times> int) list \<Rightarrow> ConversationManager \<Rightarrow> ConversationManager"
  where
  "create_all [] mgr = mgr"
| "create_all ((t, i, c, u) # rest) mgr = create_all rest (snd (createConversation t i c u mgr))"

text \<open>
  What every store of a running manager satisfies: the keys are distinct, each
  conversation is filed under its own identifier, and each carries its metadata, whose
  \<open>agentsUsed\<close> has no repetition.
\<close>

definition store_ok :: "ConversationManager \<Rightarrow> bool" where
  "store_ok mgr \<longleftrightarrow>
     distinct (map fst (conversations mgr)) \<and>
     (\<forall>(k, c) \<in> set (conversations mgr).
        conv_id c = k \<and>
        (\<exists>md. metadata c = Some md \<and> distinct (agentsUsed md)))"

section \<open>Reading the messages sent to the model, and sample environments\<close>

text \<open>
  The results the model was given with success: the name and the result text of every
  function response without an \<open>error\<close>, in the order they were sent.
\<close>

fun tool_successes :: "chat_message \<Rightarrow> (jstring \<times> jstring) list" where
  "tool_successes (UserText _) = []"
| "tool_successes (ToolResults frs) =
     concat (map (\<lambda>fr. case fr_response fr of
                          Inr result \<Rightarrow> [(fr_name fr, result)]
                        | Inl _ \<Rightarrow> [])
               frs)"

text \<open>What an entry of \<open>agentCalls\<close> says happened: the agent and its result.\<close>

definition entry_key :: "agent_call \<Rightarrow> jstring \<times> jstring" where
  "entry_key c = (agent c, call_response c)"

definition KNOWN_FUNCTIONS :: "jstring list" where
  "KNOWN_FUNCTIONS =
     map ascii [''query_wikidata'', ''get_wikipedia_summary'', ''geocode_location'',
                ''get_weather'']"

text \<open>
  A network to run the loop against: Nominatim is unreachable (\<open>fetch\<close> rejects with
  \<open>timeout\<close>), Wikipedia answers every request with one summary, the other two services
  fail.
\<close>

definition sample_network :: network where
  "sample_network =
     \<lparr>sparql_get = (\<lambda>req. Inl \<lparr>status = None, message = ascii ''Network Error''\<rparr>),
      summary_get = (\<lambda>req. Inr \<lparr>wp_title = ascii ''Rome'',
                                  wp_extract = ascii ''Rome is the capital of Italy.'',
                                  wp_page = None\<rparr>),
      nominatim_fetch = (\<lambda>req. Inl (ascii ''timeout'')),
      meteo_fetch = (\<lambda>req. Inl (ascii ''fetch failed''))\<rparr>"

text \<open>
  A world around a given chat session. Its \<open>uri_encode\<close> leaves the text unchanged and
  never throws, which is what \<open>encodeURIComponent\<close> does on letters and digits.
\<close>

definition sample_world :: "(chat_message list \<Rightarrow> jstring + model_response) \<Rightarrow> world" where
  "sample_world chat =
     \<lparr>case_map = sample_case_table,
      sparql_parser = accepting_parser,
      uri_encode = Inr,
      number_to_string = (\<lambda>x. ascii ''0''),
      to_text = (\<lambda>v. Inr (ascii ''undefined'')),
      type_error = (\<lambda>v p. ascii ''TypeError''),
      network_at = (\<lambda>turn i. sample_network),
      sendMessage = (\<lambda>hist sent. chat sent),
      date_now = (\<lambda>k. 1000 * int k)\<rparr>"

definition geocode_rome :: function_call where
  "geocode_rome =
     \<lparr>name = ascii ''geocode_location'',
      args = Some [(ascii ''query'', JString (ascii ''Rome''))]\<rparr>"

definition summary_rome :: function_call where
  "summary_rome =
     \<lparr>name = ascii ''get_wikipedia_summary'',
      args = Some [(ascii ''term'', JString (ascii ''Rome''))]\<rparr>"

definition asks_two_tools :: model_response where
  "asks_two_tools =
     \<lparr>parts = None, functionCalls = Inr (Some [geocode_rome, summary_rome]),
      response_text = Inr []\<rparr>"

definition final_answer :: model_response where
  "final_answer =
     \<lparr>parts = None, functionCalls = Inr None,
      response_text = Inr (ascii ''Rome is the capital of Italy.'')\<rparr>"

text \<open>A session that asks for the two tools once and then answers.\<close>

definition one_round_chat :: "chat_message list \<Rightarrow> jstring + model_response" where
  "one_round_chat sent = (if length sent = 1 then Inr asks_two_tools else Inr final_answer)"

text \<open>A session that asks for the two tools in every response.\<close>

definition insistent_chat :: "chat_message list \<Rightarrow> jstring + model_response" where
  "insistent_chat sent = Inr asks_two_tools"

text \<open>
  With the sample network, each round of the two calls gives one error result and one
  success, and pushes one entry on \<open>agentCalls\<close>.
\<close>

definition sample_entry :: agent_call where
  "sample_entry =
     \<lparr>agent = ascii ''get_wikipedia_summary'',
      call_params = Some [(ascii ''term'', JString (ascii ''Rome''))],
      call_response = ascii ''**Rome**'' @ nl @ nl @ ascii ''Rome is the capital of Italy.''\<rparr>"

definition sample_results :: chat_message where
  "sample_results =
     ToolResults
       [\<lparr>fr_name = ascii ''geocode_location'', fr_response = Inl (ascii ''timeout'')\<rparr>,
        \<lparr>fr_name = ascii ''get_wikipedia_summary'',
         fr_response = Inr (ascii ''**Rome**'' @ nl @ nl @ ascii ''Rome is the capital of Italy.'')\<rparr>]"

text \<open>
  A store holding one conversation created with a title, a first message longer than
  fifty characters, and the response record of a completed query.
\<close>

definition sample_store :: ConversationManager where
  "sample_store =
     snd (createConversation (Some (ascii ''My chat'')) (ascii ''c1'') 0 0 (new_manager 100))"

definition sample_conversation :: Conversation where
  "sample_conversation =
     fst (createConversation (Some (ascii ''My chat'')) (ascii ''c1'') 0 0 (new_manager 100))"

definition long_message :: jstring where
  "long_message =
     ascii ''What is the population of the capital of the country where Einstein was born?''"

definition sample_response :: QueryResponse where
  "sample_response =
     \<lparr>query = ascii ''Rome?'', thoughts = [], agentCalls = [sample_entry],
      answer = ascii ''Rome is the capital of Italy.'', latencyMs = 1000\<rparr>"

text \<open>Two creations, the first older than the second.\<close>

definition two_creates :: "(jstring option \<times> jstring \<times> int \<times> int) list" where
  "two_creates = [(None, ascii ''a'', 1, 1), (None, ascii ''b'', 2, 2)]"

section \<open>Properties of the validator\<close>

lemma js_includes_iff: "js_includes s k \<longleftrightarrow> (\<exists>ps ss. s = ps @ k @ ss)"
proof (induction s)
  case Nil
  then show ?case by auto
next
  case (Cons c cs)
  show ?case
  proof
    assume "js_includes (c # cs) k"
    then consider "prefix k (c # cs)" | "js_includes cs k" by auto
    then show "\<exists>ps ss. c # cs = ps @ k @ ss"
    proof cases
      case 1
      then obtain ss where "c # cs = k @ ss" by (auto simp: prefix_def)
      then have "c # cs = [] @ k @ ss" by simp
      then show ?thesis by blast
    next
      case 2
      with Cons.IH obtain ps ss where "cs = ps @ k @ ss" by blast
      then have "c # cs = (c # ps) @ k @ ss" by simp
      then show ?thesis by blast
    qed
  next
    assume "\<exists>ps ss. c # cs = ps @ k @ ss"
    then obtain ps ss where e: "c # cs = ps @ k @ ss" by blast
    show "js_includes (c # cs) k"
    proof (cases ps)
      case Nil
      with e have "prefix k (c # cs)" by (simp add: prefix_def)
      then show ?thesis by simp
    next
      case (Cons p ps')
      with e have "cs = ps' @ k @ ss" by simp
      with Cons.IH have "js_includes cs k" by blast
      then show ?thesis by simp
    qed
  qed
qed

lemma ascii_fold_eq: "ascii_lower x = ascii_lower y \<longleftrightarrow> ascii_upper x = ascii_upper y"
  by (auto simp: ascii_lower_def ascii_upper_def split: if_splits)

lemma eq_ignore_case_upper: "eq_ignore_case a b \<longleftrightarrow> map ascii_upper a = map ascii_upper b"
proof -
  have "map ascii_lower a = map ascii_lower b \<longleftrightarrow>
        length a = length b \<and> (\<forall>i < length a. ascii_lower (a ! i) = ascii_lower (b ! i))"
    by (auto simp: list_eq_iff_nth_eq)
  also have "\<dots> \<longleftrightarrow>
        length a = length b \<and> (\<forall>i < length a. ascii_upper (a ! i) = ascii_upper (b ! i))"
    by (simp only: ascii_fold_eq)
  also have "\<dots> \<longleftrightarrow> map ascii_upper a = map ascii_upper b"
    by (auto simp: list_eq_iff_nth_eq)
  finally show ?thesis by (simp only: eq_ignore_case_def)
qed

lemma contains_ci_iff:
  "contains_ci q k \<longleftrightarrow> (\<exists>ps w ss. q = ps @ w @ ss \<and> eq_ignore_case w k)"
proof (induction q)
  case Nil
  then show ?case by (auto simp: eq_ignore_case_upper)
next
  case (Cons c cs)
  show ?case
  proof
    assume "contains_ci (c # cs) k"
    then consider "eq_ignore_case (take (length k) (c # cs)) k" | "contains_ci cs k" by auto
    then show "\<exists>ps w ss. c # cs = ps @ w @ ss \<and> eq_ignore_case w k"
    proof cases
      case 1
      have "c # cs = [] @ take (length k) (c # cs) @ drop (length k) (c # cs)" by simp
      with 1 show ?thesis by blast
    next
      case 2
      with Cons.IH obtain ps w ss where "cs = ps @ w @ ss" "eq_ignore_case w k" by blast
      then have "c # cs = (c # ps) @ w @ ss \<and> eq_ignore_case w k" by simp
      then show ?thesis by blast
    qed
  next
    assume "\<exists>ps w ss. c # cs = ps @ w @ ss \<and> eq_ignore_case w k"
    then obtain ps w ss where e: "c # cs = ps @ w @ ss" and w: "eq_ignore_case w k" by blast
    from w have len: "length w = length k"
      by (metis eq_ignore_case_upper length_map)
    show "contains_ci (c # cs) k"
    proof (cases ps)
      case Nil
      with e len have "take (length k) (c # cs) = w" by simp
      with w show ?thesis by simp
    next
      case (Cons p ps')
      with e have "cs = ps' @ w @ ss" by simp
      with w Cons.IH have "contains_ci cs k" by blast
      then show ?thesis by simp
    qed
  qed
qed

lemma toUpperCase_ascii_cons:
  "c < 128 \<Longrightarrow> toUpperCase U (c # cs) = ascii_upper c # toUpperCase U cs"
  by (cases cs) (simp_all add: upper_point_def is_high_surrogate_def)

lemma toUpperCase_append_ascii:
  "a < 128 \<Longrightarrow> toUpperCase U (ps @ a # rest) = toUpperCase U ps @ toUpperCase U (a # rest)"
proof (induction U ps rule: toUpperCase.induct)
  case (1 U)
  then show ?case by simp
next
  case (2 U c)
  then have "\<not> is_low_surrogate a" by (simp add: is_low_surrogate_def)
  then show ?case by simp
next
  case (3 U c d cs)
  then show ?case by simp
qed

lemma toUpperCase_ascii_block:
  "is_ascii w \<Longrightarrow> toUpperCase U (w @ ss) = map ascii_upper w @ toUpperCase U ss"
  by (induction w) (simp_all add: is_ascii_def toUpperCase_ascii_cons)

lemma toUpperCase_is_ascii: "is_ascii q \<Longrightarrow> toUpperCase U q = map ascii_upper q"
  using toUpperCase_ascii_block [of q U "[]"] by simp

lemma ascii_upper_less: "ascii_upper c < 128 \<longleftrightarrow> c < 128"
  by (auto simp: ascii_upper_def)

lemma is_ascii_map_upper: "is_ascii (map ascii_upper w) \<longleftrightarrow> is_ascii w"
  by (induction w) (simp_all add: is_ascii_def ascii_upper_less)

lemma DANGEROUS_KEYWORDS_units:
  "DANGEROUS_KEYWORDS =
     [[68, 69, 76, 69, 84, 69], [73, 78, 83, 69, 82, 84], [68, 82, 79, 80],
      [67, 82, 69, 65, 84, 69], [67, 76, 69, 65, 82], [76, 79, 65, 68]]"
  by code_simp

lemma keyword_shape:
  "k \<in> set DANGEROUS_KEYWORDS \<Longrightarrow> k \<noteq> [] \<and> is_ascii k \<and> map ascii_upper k = k"
  by (auto simp: DANGEROUS_KEYWORDS_units is_ascii_def ascii_upper_def)

lemma contains_ci_imp_includes:
  assumes k: "k \<noteq> []" "is_ascii k" "map ascii_upper k = k" and c: "contains_ci q k"
  shows "js_includes (toUpperCase U q) k"
proof -
  from c obtain ps w ss where q: "q = ps @ w @ ss" and w: "map ascii_upper w = k"
    unfolding contains_ci_iff eq_ignore_case_upper using k(3) by auto
  from w k(2) have aw: "is_ascii w" using is_ascii_map_upper by blast
  from w k(1) obtain a w' where w': "w = a # w'" by (cases w) auto
  with aw have a: "a < 128" by (simp add: is_ascii_def)
  have "toUpperCase U q = toUpperCase U ps @ toUpperCase U (w @ ss)"
    unfolding q w' using toUpperCase_append_ascii [OF a, of U ps "w' @ ss"] by simp
  also have "\<dots> = toUpperCase U ps @ k @ toUpperCase U ss"
    using toUpperCase_ascii_block [OF aw] w by simp
  finally show ?thesis unfolding js_includes_iff by blast
qed

lemma includes_ascii_iff:
  assumes "is_ascii q" and "map ascii_upper k = k"
  shows "js_includes (toUpperCase U q) k \<longleftrightarrow> contains_ci q k"
proof
  assume "js_includes (toUpperCase U q) k"
  then obtain ps ss where "map ascii_upper q = ps @ k @ ss"
    by (auto simp: js_includes_iff toUpperCase_is_ascii [OF assms(1)])
  then obtain ps' r where q: "q = ps' @ r" and r: "map ascii_upper r = k @ ss"
    by (metis map_eq_append_conv)
  from r obtain w ss' where "r = w @ ss'" and "map ascii_upper w = k"
    by (metis map_eq_append_conv)
  with q assms(2) have "q = ps' @ w @ ss' \<and> eq_ignore_case w k"
    by (simp add: eq_ignore_case_upper)
  then show "contains_ci q k" unfolding contains_ci_iff by blast
next
  assume "contains_ci q k"
  then obtain ps w ss where "q = ps @ w @ ss" and "eq_ignore_case w k"
    unfolding contains_ci_iff by blast
  with assms(2) have "map ascii_upper q = map ascii_upper ps @ k @ map ascii_upper ss"
    by (simp add: eq_ignore_case_upper)
  then show "js_includes (toUpperCase U q) k"
    unfolding js_includes_iff toUpperCase_is_ascii [OF assms(1)] by blast
qed

lemma find_keywords_ascii:
  "is_ascii q \<Longrightarrow>
   find (js_includes (toUpperCase U q)) DANGEROUS_KEYWORDS = find (contains_ci q) DANGEROUS_KEYWORDS"
  by (rule find_cong) (auto simp: includes_ascii_iff keyword_shape)

lemma validate_valid_iff:
  "valid (validate U parse q) \<longleftrightarrow>
     (parse q = Inr () \<and> (\<forall>k \<in> set DANGEROUS_KEYWORDS. \<not> js_includes (toUpperCase U q) k))"
  by (auto simp: validate_def Let_def find_None_iff find_Some_iff
           split: sum.splits option.splits)

lemma keyword_includes:
  "k \<in> set DANGEROUS_KEYWORDS \<Longrightarrow> contains_ci q k \<Longrightarrow> js_includes (toUpperCase U q) k"
  using keyword_shape [of k] by (simp add: contains_ci_imp_includes)

lemma keyword_includes_ascii:
  "k \<in> set DANGEROUS_KEYWORDS \<Longrightarrow> is_ascii q \<Longrightarrow>
   js_includes (toUpperCase U q) k \<longleftrightarrow> contains_ci q k"
  using keyword_shape [of k] by (simp add: includes_ascii_iff)


text \<open>The definitions that evaluate the validator on a concrete query.\<close>

lemmas validator_eval = ascii_def eq_ignore_case_def ascii_lower_def ascii_upper_def DANGEROUS_KEYWORDS_units validate_def
  rejecting_parser_def accepting_parser_def sample_case_table_def upper_point_def
  is_high_surrogate_def is_low_surrogate_def dq_def

section \<open>Claims about the validator and the Wikidata agent\<close>

text \<open>
  C3, as stated, fails. The claim asks for a failed verdict whose reason names the
  blocked keyword whether or not the query parses. \<open>validate\<close> parses first, and a parse
  error is caught before the keyword scan runs: the query below contains \<open>load\<close>, the
  parser rejects it, and the reason is the syntax error, which does not contain \<open>LOAD\<close>
  in any letter case.
\<close>

theorem C3_reason_on_parse_failure_counterexample:
  "ascii ''LOAD'' \<in> set DANGEROUS_KEYWORDS \<and>
   contains_ci (ascii ''SELECT ?load ?population ?country WHERE {'') (ascii ''LOAD'') \<and>
   validate sample_case_table (rejecting_parser (ascii ''Unexpected end of input''))
       (ascii ''SELECT ?load ?population ?country WHERE {'')
     = \<lparr>valid = False,
        error = Some (ascii ''SPARQL syntax error: Unexpected end of input'')\<rparr> \<and>
   \<not> contains_ci (ascii ''SPARQL syntax error: Unexpected end of input'') (ascii ''LOAD'')"
  by (simp add: validator_eval)

text \<open>
  C3, amended: every query that contains a blocked keyword, case-insensitively, gets a
  failed verdict, whatever the parser says and whatever the Unicode case mappings are.
  When the query parses, the reason names the first keyword of the blocklist that occurs
  in the upper-cased query; for a query of ASCII characters this is the first keyword of
  the blocklist that the query contains case-insensitively. When the query does not
  parse, the reason is the syntax error with the parser's message.
\<close>

theorem C3_blocked_keyword_fails:
  assumes "k \<in> set DANGEROUS_KEYWORDS" and "contains_ci q k"
  shows "\<not> valid (validate U parse q) \<and>
         (parse q = Inr () \<longrightarrow>
            (\<exists>k'. find (js_includes (toUpperCase U q)) DANGEROUS_KEYWORDS = Some k' \<and>
                  error (validate U parse q) =
                    Some (ascii ''Dangerous SPARQL keyword detected: '' @ k' @
                          ascii ''. Only read-only queries are allowed.''))) \<and>
         (parse q = Inr () \<and> is_ascii q \<longrightarrow>
            (\<exists>k'. find (contains_ci q) DANGEROUS_KEYWORDS = Some k' \<and>
                  error (validate U parse q) =
                    Some (ascii ''Dangerous SPARQL keyword detected: '' @ k' @
                          ascii ''. Only read-only queries are allowed.''))) \<and>
         (\<forall>msg. parse q = Inl msg \<longrightarrow>
            error (validate U parse q) = Some (ascii ''SPARQL syntax error: '' @ msg))"
proof -
  from assms have inc: "js_includes (toUpperCase U q) k"
    by (rule keyword_includes)
  with assms(1) have nv: "\<not> valid (validate U parse q)"
    unfolding validate_valid_iff by blast
  from inc assms(1) have "find (js_includes (toUpperCase U q)) DANGEROUS_KEYWORDS \<noteq> None"
    by (auto simp: find_None_iff)
  then obtain k' where k': "find (js_includes (toUpperCase U q)) DANGEROUS_KEYWORDS = Some k'"
    by blast
  then have ok: "parse q = Inr () \<longrightarrow>
      error (validate U parse q) =
        Some (ascii ''Dangerous SPARQL keyword detected: '' @ k' @
              ascii ''. Only read-only queries are allowed.'')"
    by (simp add: validate_def Let_def)
  have asc: "is_ascii q \<longrightarrow> find (contains_ci q) DANGEROUS_KEYWORDS = Some k'"
    using k' find_keywords_ascii [of q U] by simp
  have bad: "\<forall>msg. parse q = Inl msg \<longrightarrow>
      error (validate U parse q) = Some (ascii ''SPARQL syntax error: '' @ msg)"
    by (simp add: validate_def)
  show ?thesis
  proof (intro conjI)
    show "\<not> valid (validate U parse q)" by (rule nv)
    show "parse q = Inr () \<longrightarrow>
            (\<exists>k'. find (js_includes (toUpperCase U q)) DANGEROUS_KEYWORDS = Some k' \<and>
                  error (validate U parse q) =
                    Some (ascii ''Dangerous SPARQL keyword detected: '' @ k' @
                          ascii ''. Only read-only queries are allowed.''))"
      using k' ok by blast
    show "parse q = Inr () \<and> is_ascii q \<longrightarrow>
            (\<exists>k'. find (contains_ci q) DANGEROUS_KEYWORDS = Some k' \<and>
                  error (validate U parse q) =
                    Some (ascii ''Dangerous SPARQL keyword detected: '' @ k' @
                          ascii ''. Only read-only queries are allowed.''))"
      using asc ok by blast
    show "\<forall>msg. parse q = Inl msg \<longrightarrow>
            error (validate U parse q) = Some (ascii ''SPARQL syntax error: '' @ msg)"
      by (rule bad)
  qed
qed

theorem C3_blocked_keyword_fails_witness:
  "ascii ''DELETE'' \<in> set DANGEROUS_KEYWORDS \<and>
   contains_ci (ascii ''delete WHERE { ?x ?y ?z }'') (ascii ''DELETE'') \<and>
   \<not> valid (validate sample_case_table accepting_parser (ascii ''delete WHERE { ?x ?y ?z }'')) \<and>
   error (validate sample_case_table accepting_parser (ascii ''delete WHERE { ?x ?y ?z }'')) =
     Some (ascii ''Dangerous SPARQL keyword detected: '' @ ascii ''DELETE'' @
           ascii ''. Only read-only queries are allowed.'')"
proof -
  let ?q = "ascii ''delete WHERE { ?x ?y ?z }''"
  have h1: "ascii ''DELETE'' \<in> set DANGEROUS_KEYWORDS" by (simp add: validator_eval)
  have h2: "contains_ci ?q (ascii ''DELETE'')" by (simp add: validator_eval)
  have h3: "find (js_includes (toUpperCase sample_case_table ?q)) DANGEROUS_KEYWORDS
              = Some (ascii ''DELETE'')"
    by (simp add: validator_eval)
  have p: "accepting_parser ?q = Inr ()" by (simp only: accepting_parser_def)
  note t = C3_blocked_keyword_fails [OF h1 h2, of sample_case_table accepting_parser]
  from t have nv: "\<not> valid (validate sample_case_table accepting_parser ?q)" by (rule conjunct1)
  from t have "accepting_parser ?q = Inr () \<longrightarrow>
            (\<exists>k'. find (js_includes (toUpperCase sample_case_table ?q)) DANGEROUS_KEYWORDS = Some k' \<and>
                  error (validate sample_case_table accepting_parser ?q) =
                    Some (ascii ''Dangerous SPARQL keyword detected: '' @ k' @
                          ascii ''. Only read-only queries are allowed.''))"
    by (rule conjunct1 [OF conjunct2])
  with p obtain k' where
    f: "find (js_includes (toUpperCase sample_case_table ?q)) DANGEROUS_KEYWORDS = Some k'"
    and e: "error (validate sample_case_table accepting_parser ?q) =
       Some (ascii ''Dangerous SPARQL keyword detected: '' @ k' @
             ascii ''. Only read-only queries are allowed.'')"
    by blast
  from f h3 have "k' = ascii ''DELETE''" by (simp only: option.inject)
  with e have e': "error (validate sample_case_table accepting_parser ?q) =
       Some (ascii ''Dangerous SPARQL keyword detected: '' @ ascii ''DELETE'' @
             ascii ''. Only read-only queries are allowed.'')"
    by (simp only:)
  from h1 h2 nv e' show ?thesis by (intro conjI)
qed


text \<open>
  The reason follows the upper-cased text: U+017F upper-cases to \<open>S\<close>, so a query holding
  \<open>in\<close>, U+017F, \<open>ert drop\<close> is reported for \<open>INSERT\<close>, which comes before \<open>DROP\<close> in the
  blocklist.
\<close>

lemma validate_long_s_example:
  "validate sample_case_table accepting_parser
       (ascii ''SELECT ?x WHERE { ?x <http://a/b> '' @ dq @ ascii ''in'' @ [383] @
        ascii ''ert drop'' @ dq @ ascii '' }'')
     = \<lparr>valid = False,
        error = Some (ascii ''Dangerous SPARQL keyword detected: INSERT. Only read-only queries are allowed.'')\<rparr>"
  by (simp add: validator_eval)

text \<open>
  C4, as stated, fails in one direction. The scan runs on \<open>queryString.toUpperCase()\<close>,
  and the Unicode uppercase mapping sends some characters outside ASCII to ASCII
  letters: U+0131 (dotless i) upper-cases to \<open>I\<close>. The query below parses (the parser
  accepts it) and contains no blocked keyword up to letter case, yet the verdict is the
  failure for \<open>INSERT\<close>.
\<close>

theorem C4_pass_without_keyword_counterexample:
  "accepting_parser
       (ascii ''SELECT ?x WHERE { ?x <http://a/b> '' @ dq @ [305] @ ascii ''nsert'' @ dq @ ascii '' }'')
     = Inr () \<and>
   find (contains_ci
           (ascii ''SELECT ?x WHERE { ?x <http://a/b> '' @ dq @ [305] @ ascii ''nsert'' @ dq @ ascii '' }''))
        DANGEROUS_KEYWORDS = None \<and>
   validate sample_case_table accepting_parser
       (ascii ''SELECT ?x WHERE { ?x <http://a/b> '' @ dq @ [305] @ ascii ''nsert'' @ dq @ ascii '' }'')
     = \<lparr>valid = False,
        error = Some (ascii ''Dangerous SPARQL keyword detected: INSERT. Only read-only queries are allowed.'')\<rparr>"
  by (simp add: validator_eval)

text \<open>
  C4, amended: the verdict is a pass exactly when the query parses and its upper-cased
  text contains no blocked keyword. A passing query therefore contains no blocked
  keyword case-insensitively, and for a query of ASCII characters the verdict is a pass
  exactly when the query parses and contains no blocked keyword case-insensitively. A
  query that does not parse gets a failed verdict whose reason ends with the parser's
  message; and for a failed verdict \<open>wikidata_execute\<close> issues no request and throws the
  validation error.
\<close>

theorem C4_validate_pass_iff:
  "(valid (validate U parse q) \<longleftrightarrow>
      parse q = Inr () \<and> (\<forall>k \<in> set DANGEROUS_KEYWORDS. \<not> js_includes (toUpperCase U q) k)) \<and>
   (valid (validate U parse q) \<longrightarrow> (\<forall>k \<in> set DANGEROUS_KEYWORDS. \<not> contains_ci q k)) \<and>
   (is_ascii q \<longrightarrow>
      (valid (validate U parse q) \<longleftrightarrow>
         parse q = Inr () \<and> (\<forall>k \<in> set DANGEROUS_KEYWORDS. \<not> contains_ci q k))) \<and>
   (\<forall>msg. parse q = Inl msg \<longrightarrow>
      validate U parse q =
        \<lparr>valid = False, error = Some (ascii ''SPARQL syntax error: '' @ msg)\<rparr>) \<and>
   (\<not> valid (validate U parse q) \<longrightarrow>
      fst (wikidata_execute U parse axios_get q) = [] \<and>
      (\<exists>reason. error (validate U parse q) = Some reason \<and>
         snd (wikidata_execute U parse axios_get q) =
           Inl (ascii ''SPARQL validation failed: '' @ reason)))"
proof (intro conjI)
  show a: "valid (validate U parse q) \<longleftrightarrow>
      parse q = Inr () \<and> (\<forall>k \<in> set DANGEROUS_KEYWORDS. \<not> js_includes (toUpperCase U q) k)"
    by (rule validate_valid_iff)
  show "valid (validate U parse q) \<longrightarrow> (\<forall>k \<in> set DANGEROUS_KEYWORDS. \<not> contains_ci q k)"
    unfolding a using keyword_includes [of _ q U] by blast
  show "is_ascii q \<longrightarrow>
      (valid (validate U parse q) \<longleftrightarrow>
         parse q = Inr () \<and> (\<forall>k \<in> set DANGEROUS_KEYWORDS. \<not> contains_ci q k))"
    unfolding a using keyword_includes_ascii [of _ q U] by blast
  show "\<forall>msg. parse q = Inl msg \<longrightarrow>
      validate U parse q =
        \<lparr>valid = False, error = Some (ascii ''SPARQL syntax error: '' @ msg)\<rparr>"
    by (simp add: validate_def)
  show "\<not> valid (validate U parse q) \<longrightarrow>
      fst (wikidata_execute U parse axios_get q) = [] \<and>
      (\<exists>reason. error (validate U parse q) = Some reason \<and>
         snd (wikidata_execute U parse axios_get q) =
           Inl (ascii ''SPARQL validation failed: '' @ reason))"
    by (auto simp: wikidata_execute_def validate_def Let_def split: sum.splits option.splits)
qed

theorem C4_validate_pass_iff_witness:
  "valid (validate sample_case_table accepting_parser
            (ascii ''SELECT ?x WHERE { ?x wdt:P31 wd:Q5 }'')) \<and>
   is_ascii (ascii ''SELECT ?x WHERE { ?x wdt:P31 wd:Q5 }'') \<and>
   find (contains_ci (ascii ''SELECT ?x WHERE { ?x wdt:P31 wd:Q5 }'')) DANGEROUS_KEYWORDS = None \<and>
   validate sample_case_table (rejecting_parser (ascii ''Unexpected end of input''))
       (ascii ''SELECT ?x WHERE {'') =
     \<lparr>valid = False,
      error = Some (ascii ''SPARQL syntax error: '' @ ascii ''Unexpected end of input'')\<rparr> \<and>
   fst (wikidata_execute sample_case_table (rejecting_parser (ascii ''Unexpected end of input''))
          (\<lambda>r. Inl \<lparr>status = None, message = ascii ''unreachable''\<rparr>)
          (ascii ''SELECT ?x WHERE {'')) = [] \<and>
   snd (wikidata_execute sample_case_table (rejecting_parser (ascii ''Unexpected end of input''))
          (\<lambda>r. Inl \<lparr>status = None, message = ascii ''unreachable''\<rparr>)
          (ascii ''SELECT ?x WHERE {'')) =
     Inl (ascii ''SPARQL validation failed: '' @ ascii ''SPARQL syntax error: '' @
          ascii ''Unexpected end of input'')"
proof -
  let ?good = "ascii ''SELECT ?x WHERE { ?x wdt:P31 wd:Q5 }''"
  let ?bad = "ascii ''SELECT ?x WHERE {''"
  let ?fail = "rejecting_parser (ascii ''Unexpected end of input'')"
  let ?net = "\<lambda>r::http_request. (Inl \<lparr>status = None, message = ascii ''unreachable''\<rparr>
                :: axios_error + WikidataQueryResult)"
  let ?U = sample_case_table
  have asc: "is_ascii ?good" by (simp add: ascii_def is_ascii_def)
  have h1: "find (contains_ci ?good) DANGEROUS_KEYWORDS = None" by (simp add: validator_eval)
  then have h2: "\<forall>k \<in> set DANGEROUS_KEYWORDS. \<not> contains_ci ?good k"
    by (simp only: find_None_iff) blast
  have p: "accepting_parser ?good = Inr ()" by (simp only: accepting_parser_def)
  note g = C4_validate_pass_iff [of ?U accepting_parser ?good]
  from g have "is_ascii ?good \<longrightarrow>
      (valid (validate ?U accepting_parser ?good) \<longleftrightarrow>
         accepting_parser ?good = Inr () \<and> (\<forall>k \<in> set DANGEROUS_KEYWORDS. \<not> contains_ci ?good k))"
    by (rule conjunct1 [OF conjunct2 [OF conjunct2]])
  with asc p h2 have a: "valid (validate ?U accepting_parser ?good)" by blast
  note t = C4_validate_pass_iff [of ?U ?fail ?bad ?net]
  have pf: "?fail ?bad = Inl (ascii ''Unexpected end of input'')"
    by (simp only: rejecting_parser_def)
  from t have "\<forall>msg. ?fail ?bad = Inl msg \<longrightarrow>
      validate ?U ?fail ?bad =
        \<lparr>valid = False, error = Some (ascii ''SPARQL syntax error: '' @ msg)\<rparr>"
    by (rule conjunct1 [OF conjunct2 [OF conjunct2 [OF conjunct2]]])
  with pf have b: "validate ?U ?fail ?bad =
     \<lparr>valid = False,
      error = Some (ascii ''SPARQL syntax error: '' @ ascii ''Unexpected end of input'')\<rparr>"
    by blast
  then have nv: "\<not> valid (validate ?U ?fail ?bad)"
    and e: "error (validate ?U ?fail ?bad) =
              Some (ascii ''SPARQL syntax error: '' @ ascii ''Unexpected end of input'')"
    by simp_all
  from t have "\<not> valid (validate ?U ?fail ?bad) \<longrightarrow>
      fst (wikidata_execute ?U ?fail ?net ?bad) = [] \<and>
      (\<exists>reason. error (validate ?U ?fail ?bad) = Some reason \<and>
         snd (wikidata_execute ?U ?fail ?net ?bad) =
           Inl (ascii ''SPARQL validation failed: '' @ reason))"
    by (rule conjunct2 [OF conjunct2 [OF conjunct2 [OF conjunct2]]])
  with nv obtain reason where c: "fst (wikidata_execute ?U ?fail ?net ?bad) = []"
    and r: "error (validate ?U ?fail ?bad) = Some reason"
    and d: "snd (wikidata_execute ?U ?fail ?net ?bad) =
              Inl (ascii ''SPARQL validation failed: '' @ reason)"
    by blast
  from r e have "reason = ascii ''SPARQL syntax error: '' @ ascii ''Unexpected end of input''"
    by (simp only: option.inject)
  with d have d': "snd (wikidata_execute ?U ?fail ?net ?bad) =
      Inl (ascii ''SPARQL validation failed: '' @ ascii ''SPARQL syntax error: '' @
           ascii ''Unexpected end of input'')"
    by (simp only:)
  from a asc h1 b c d' show ?thesis by (intro conjI)
qed
section \<open>Properties of the orchestration loop\<close>



lemma handle_call_Inl:
  "dispatch w net c = Inl m \<Longrightarrow>
   handle_call w net c = (\<lparr>fr_name = name c, fr_response = Inl m\<rparr>, None)"
  by (simp add: handle_call_def)

lemma handle_call_Inr:
  "dispatch w net c = Inr r \<Longrightarrow>
   handle_call w net c =
     (\<lparr>fr_name = name c, fr_response = Inr r\<rparr>,
      Some \<lparr>agent = name c, call_params = args c, call_response = r\<rparr>)"
  by (simp add: handle_call_def)


lemma handle_call_successes:
  "map entry_key (List.map_filter snd [handle_call w net c]) =
   tool_successes (ToolResults [fst (handle_call w net c)])"
  by (simp add: handle_call_def List.map_filter_def entry_key_def split: sum.splits)

lemma outcomes_successes:
  "map entry_key (List.map_filter snd (map (\<lambda>(i, c). handle_call w (f i) c) xs)) =
   tool_successes (ToolResults (map fst (map (\<lambda>(i, c). handle_call w (f i) c) xs)))"
proof (induction xs)
  case Nil
  then show ?case by (simp add: List.map_filter_def)
next
  case (Cons x xs)
  obtain i c where x: "x = (i, c)" by (cases x)
  have "map entry_key (List.map_filter snd (map (\<lambda>(i, c). handle_call w (f i) c) (x # xs)))
      = map entry_key (List.map_filter snd [handle_call w (f i) c]) @
        map entry_key (List.map_filter snd (map (\<lambda>(i, c). handle_call w (f i) c) xs))"
    by (simp add: x List.map_filter_def)
  also have "\<dots> = tool_successes (ToolResults [fst (handle_call w (f i) c)]) @
        tool_successes (ToolResults (map fst (map (\<lambda>(i, c). handle_call w (f i) c) xs)))"
    by (simp only: handle_call_successes Cons.IH)
  also have "\<dots> = tool_successes (ToolResults (map fst (map (\<lambda>(i, c). handle_call w (f i) c) (x # xs))))"
    by (simp add: x)
  finally show ?case .
qed

lemma run_calls_successes:
  "map entry_key (List.map_filter snd (run_calls w t cs)) =
   tool_successes (ToolResults (map fst (run_calls w t cs)))"
  unfolding run_calls_def by (rule outcomes_successes)

lemma loop_final:
  assumes "functionCalls resp = Inr requested" and "requested = None \<or> the requested = []"
  shows "multi_turn_loop w hist q sent ths acs resp turn =
     (case response_text resp of
        Inl err \<Rightarrow> (Inl err, sent)
      | Inr finalText \<Rightarrow>
          (Inr \<lparr>query = q, thoughts = ths @ extract_thoughts resp, agentCalls = acs,
                answer = finalText, latencyMs = date_now w 1 - date_now w 0\<rparr>,
           sent))"
  using assms by (subst multi_turn_loop.simps) (auto simp: Let_def)

lemma loop_throw:
  assumes "functionCalls resp = Inl err"
  shows "multi_turn_loop w hist q sent ths acs resp turn = (Inl err, sent)"
  using assms by (subst multi_turn_loop.simps) (simp add: Let_def)

lemma loop_step:
  assumes "functionCalls resp = Inr (Some cs)" and "cs \<noteq> []"
  shows "multi_turn_loop w hist q sent ths acs resp turn =
     (case sendMessage w hist (sent @ [ToolResults (map fst (run_calls w turn cs))]) of
        Inl err \<Rightarrow> (Inl err, sent @ [ToolResults (map fst (run_calls w turn cs))])
      | Inr resp' \<Rightarrow>
          if turn + 1 > 10 then
            (Inr \<lparr>query = q, thoughts = ths @ extract_thoughts resp,
                  agentCalls = acs @ List.map_filter snd (run_calls w turn cs),
                  answer = ascii ''Query processing incomplete'',
                  latencyMs = date_now w 1 - date_now w 0\<rparr>,
             sent @ [ToolResults (map fst (run_calls w turn cs))])
          else multi_turn_loop w hist q (sent @ [ToolResults (map fst (run_calls w turn cs))])
                 (ths @ extract_thoughts resp)
                 (acs @ List.map_filter snd (run_calls w turn cs)) resp' (turn + 1))"
  using assms by (subst multi_turn_loop.simps) (simp add: Let_def)

lemma loop_cases:
  obtains (throw) err where "functionCalls resp = Inl err"
  | (final) requested where "functionCalls resp = Inr requested"
      "requested = None \<or> the requested = []"
  | (step) cs where "functionCalls resp = Inr (Some cs)" "cs \<noteq> []"
proof (cases "functionCalls resp")
  case (Inl err)
  then show ?thesis by (rule throw)
next
  case (Inr requested)
  show ?thesis
  proof (cases requested)
    case None
    with Inr show ?thesis by (intro final) auto
  next
    case (Some cs)
    show ?thesis
    proof (cases "cs = []")
      case True
      with Inr Some show ?thesis by (intro final) auto
    next
      case False
      with Inr Some show ?thesis by (intro step) auto
    qed
  qed
qed


lemma loop_sent_bound:
  "turn \<le> 10 \<Longrightarrow>
   length (snd (multi_turn_loop w hist q sent ths acs resp turn)) \<le> length sent + (11 - turn)"
proof (induction "10 - turn" arbitrary: sent ths acs resp turn)
  case 0
  show ?case
  proof (cases rule: loop_cases [of resp])
    case (throw err)
    then show ?thesis by (simp add: loop_throw)
  next
    case (final requested)
    then show ?thesis by (simp add: loop_final split: sum.splits)
  next
    case (step cs)
    from 0 have "turn + 1 > 10" by simp
    with step 0 show ?thesis by (auto simp: loop_step split: sum.splits)
  qed
next
  case (Suc k)
  show ?case
  proof (cases rule: loop_cases [of resp])
    case (throw err)
    then show ?thesis by (simp add: loop_throw)
  next
    case (final requested)
    then show ?thesis by (simp add: loop_final split: sum.splits)
  next
    case (step cs)
    let ?sent' = "sent @ [ToolResults (map fst (run_calls w turn cs))]"
    from Suc(2) have t: "\<not> turn + 1 > 10" and k: "k = 10 - (turn + 1)" and le: "turn + 1 \<le> 10"
      by simp_all
    show ?thesis
    proof (cases "sendMessage w hist ?sent'")
      case (Inl err)
      with step Suc(2) show ?thesis by (simp add: loop_step)
    next
      case (Inr resp')
      from Suc(1) [OF k le]
      have "length (snd (multi_turn_loop w hist q ?sent' (ths @ extract_thoughts resp)
               (acs @ List.map_filter snd (run_calls w turn cs)) resp' (turn + 1)))
            \<le> length ?sent' + (11 - (turn + 1))" .
      with step Inr t Suc(2) show ?thesis by (simp add: loop_step)
    qed
  qed
qed

lemma executeQuery_sent_bound: "length (snd (executeQuery w hist q)) \<le> 11"
proof (cases "sendMessage w hist [UserText q]")
  case (Inl err)
  then show ?thesis by (simp add: executeQuery_def)
next
  case (Inr resp)
  have "length (snd (multi_turn_loop w hist q [UserText q] [] [] resp 1)) \<le> length [UserText q] + (11 - 1)"
    by (rule loop_sent_bound) simp
  with Inr show ?thesis by (simp add: executeQuery_def)
qed

lemma loop_agentCalls:
  "multi_turn_loop w hist q sent ths acs resp turn = (Inr r, sent') \<Longrightarrow>
   \<exists>rest. sent' = sent @ rest \<and>
          map entry_key (agentCalls r) = map entry_key acs @ concat (map tool_successes rest)"
proof (induction "10 - turn" arbitrary: sent ths acs resp turn)
  case 0
  show ?case
  proof (cases rule: loop_cases [of resp])
    case (throw err)
    with 0(2) show ?thesis by (simp add: loop_throw)
  next
    case (final requested)
    with 0(2) show ?thesis by (auto simp: loop_final split: sum.splits)
  next
    case (step cs)
    from 0(1) have "turn + 1 > 10" by simp
    with step 0(2) show ?thesis
      by (auto simp: loop_step run_calls_successes simp del: tool_successes.simps
               split: sum.splits)
  qed
next
  case (Suc k)
  show ?case
  proof (cases rule: loop_cases [of resp])
    case (throw err)
    with Suc(3) show ?thesis by (simp add: loop_throw)
  next
    case (final requested)
    with Suc(3) show ?thesis by (auto simp: loop_final split: sum.splits)
  next
    case (step cs)
    let ?frs = "map fst (run_calls w turn cs)"
    let ?sent' = "sent @ [ToolResults ?frs]"
    let ?acs' = "acs @ List.map_filter snd (run_calls w turn cs)"
    from Suc(2) have t: "\<not> turn + 1 > 10" and k: "k = 10 - (turn + 1)" by simp_all
    show ?thesis
    proof (cases "sendMessage w hist ?sent'")
      case (Inl err)
      with step Suc(3) show ?thesis by (simp add: loop_step)
    next
      case (Inr resp')
      with step t Suc(3) have
        "multi_turn_loop w hist q ?sent' (ths @ extract_thoughts resp) ?acs' resp' (turn + 1)
           = (Inr r, sent')"
        by (simp add: loop_step)
      from Suc(1) [OF k this] obtain rest where
        s: "sent' = ?sent' @ rest" and
        a: "map entry_key (agentCalls r) = map entry_key ?acs' @ concat (map tool_successes rest)"
        by blast
      have "sent' = sent @ (ToolResults ?frs # rest)" using s by simp
      moreover have "map entry_key (agentCalls r) =
          map entry_key acs @ concat (map tool_successes (ToolResults ?frs # rest))"
        using a by (simp add: run_calls_successes del: tool_successes.simps)
      ultimately show ?thesis by blast
    qed
  qed
qed

lemma executeQuery_agentCalls:
  assumes "executeQuery w hist q = (Inr r, sent)"
  shows "map entry_key (agentCalls r) = concat (map tool_successes sent)"
proof (cases "sendMessage w hist [UserText q]")
  case (Inl err)
  with assms show ?thesis by (simp add: executeQuery_def)
next
  case (Inr resp)
  with assms have "multi_turn_loop w hist q [UserText q] [] [] resp 1 = (Inr r, sent)"
    by (simp add: executeQuery_def)
  from loop_agentCalls [OF this] show ?thesis by auto
qed

text \<open>The loop on the sample environments.\<close>

lemmas sample_eval =
  dispatch_def sample_world_def sample_network_def geocode_rome_def summary_rome_def
  js_to_string_def geocode_def nominatim_request_def wikipedia_execute_def
  wikipedia_request_def formatSummary_def trim_def is_space_def ascii_def

lemma sample_dispatch_geocode:
  "dispatch (sample_world chat) sample_network geocode_rome = Inl (ascii ''timeout'')"
  by (simp add: sample_eval)

lemma sample_dispatch_summary:
  "dispatch (sample_world chat) sample_network summary_rome =
     Inr (ascii ''**Rome**'' @ nl @ nl @ ascii ''Rome is the capital of Italy.'')"
  by (simp add: sample_eval)

lemma sample_world_fields:
  "network_at (sample_world chat) t i = sample_network"
  "sendMessage (sample_world chat) h s = chat s"
  "date_now (sample_world chat) k = 1000 * int k"
  by (simp_all add: sample_world_def)

lemma sample_turn:
  "run_calls (sample_world chat) t [geocode_rome, summary_rome] =
     [(\<lparr>fr_name = ascii ''geocode_location'', fr_response = Inl (ascii ''timeout'')\<rparr>, None),
      (\<lparr>fr_name = ascii ''get_wikipedia_summary'',
        fr_response = Inr (ascii ''**Rome**'' @ nl @ nl @ ascii ''Rome is the capital of Italy.'')\<rparr>,
       Some \<lparr>agent = ascii ''get_wikipedia_summary'',
             call_params = Some [(ascii ''term'', JString (ascii ''Rome''))],
             call_response = ascii ''**Rome**'' @ nl @ nl @ ascii ''Rome is the capital of Italy.''\<rparr>)]"
  by (simp add: run_calls_def handle_call_def sample_world_fields sample_dispatch_geocode
        sample_dispatch_summary)
     (simp add: geocode_rome_def summary_rome_def)

lemma sample_run:
  "executeQuery (sample_world one_round_chat) [] (ascii ''Rome?'') =
     (Inr \<lparr>query = ascii ''Rome?'', thoughts = [],
           agentCalls =
             [\<lparr>agent = ascii ''get_wikipedia_summary'',
               call_params = Some [(ascii ''term'', JString (ascii ''Rome''))],
               call_response = ascii ''**Rome**'' @ nl @ nl @ ascii ''Rome is the capital of Italy.''\<rparr>],
           answer = ascii ''Rome is the capital of Italy.'',
           latencyMs = 1000\<rparr>,
      [UserText (ascii ''Rome?''),
       ToolResults
         [\<lparr>fr_name = ascii ''geocode_location'', fr_response = Inl (ascii ''timeout'')\<rparr>,
          \<lparr>fr_name = ascii ''get_wikipedia_summary'',
           fr_response = Inr (ascii ''**Rome**'' @ nl @ nl @ ascii ''Rome is the capital of Italy.'')\<rparr>]])"
  by (simp add: executeQuery_def multi_turn_loop.simps sample_world_fields one_round_chat_def
        asks_two_tools_def final_answer_def sample_turn extract_thoughts_def
        List.map_filter_def)

lemma insistent_step:
  "multi_turn_loop (sample_world insistent_chat) hist q sent ths acs asks_two_tools turn =
     (if turn + 1 > 10 then
        (Inr \<lparr>query = q, thoughts = ths, agentCalls = acs @ [sample_entry],
              answer = ascii ''Query processing incomplete'', latencyMs = 1000\<rparr>,
         sent @ [sample_results])
      else multi_turn_loop (sample_world insistent_chat) hist q (sent @ [sample_results]) ths
             (acs @ [sample_entry]) asks_two_tools (turn + 1))"
  by (subst loop_step [where cs = "[geocode_rome, summary_rome]"])
     (simp_all add: asks_two_tools_def sample_turn sample_world_fields insistent_chat_def
        extract_thoughts_def List.map_filter_def sample_entry_def sample_results_def)

lemma insistent_loop:
  "turn \<le> 10 \<Longrightarrow>
   multi_turn_loop (sample_world insistent_chat) hist q sent ths acs asks_two_tools turn =
     (Inr \<lparr>query = q, thoughts = ths, agentCalls = acs @ replicate (11 - turn) sample_entry,
           answer = ascii ''Query processing incomplete'', latencyMs = 1000\<rparr>,
      sent @ replicate (11 - turn) sample_results)"
proof (induction "10 - turn" arbitrary: sent acs turn)
  case 0
  then have t10: "turn = 10" by simp
  show ?case unfolding t10 by (subst insistent_step) simp
next
  case (Suc k)
  then have t: "\<not> turn + 1 > 10" and k: "k = 10 - (turn + 1)" and le: "turn + 1 \<le> 10"
    by simp_all
  from t have r: "11 - turn = Suc (10 - turn)" by simp
  have "multi_turn_loop (sample_world insistent_chat) hist q sent ths acs asks_two_tools turn =
        multi_turn_loop (sample_world insistent_chat) hist q (sent @ [sample_results]) ths
          (acs @ [sample_entry]) asks_two_tools (turn + 1)"
    using t by (subst insistent_step) simp
  also have "\<dots> =
     (Inr \<lparr>query = q, thoughts = ths,
           agentCalls = (acs @ [sample_entry]) @ replicate (11 - (turn + 1)) sample_entry,
           answer = ascii ''Query processing incomplete'', latencyMs = 1000\<rparr>,
      (sent @ [sample_results]) @ replicate (11 - (turn + 1)) sample_results)"
    by (rule Suc(1) [OF k le])
  also have "\<dots> =
     (Inr \<lparr>query = q, thoughts = ths, agentCalls = acs @ replicate (11 - turn) sample_entry,
           answer = ascii ''Query processing incomplete'', latencyMs = 1000\<rparr>,
      sent @ replicate (11 - turn) sample_results)"
    by (simp add: r)
  finally show ?case .
qed


lemma dispatch_unknown:
  "name call \<notin> set KNOWN_FUNCTIONS \<Longrightarrow>
   dispatch w net call = Inl (ascii ''Unknown function: '' @ name call)"
  by (simp add: dispatch_def KNOWN_FUNCTIONS_def)

section \<open>Claims about the orchestration loop\<close>

text \<open>
  C1. The loop body runs at most ten times, and \<open>executeQuery\<close> never sends more than
  eleven messages (\<open>executeQuery_sent_bound\<close>). The claim also says that no eleventh
  chat call is issued. The guard \<open>turn > 10\<close> stands after \<open>chat.sendMessage\<close>: when
  the model asks for tools in each of its first ten responses, the tenth round of results
  is sent as well, which is the eleventh call, and the response to it is dropped. The
  theorem runs \<open>executeQuery\<close> against such a session: eleven messages are sent and
  the answer is the incomplete one.
\<close>

theorem C1_eleventh_chat_call:
  "executeQuery (sample_world insistent_chat) [] (ascii ''Rome?'') =
     (Inr \<lparr>query = ascii ''Rome?'', thoughts = [],
           agentCalls = replicate 10 sample_entry,
           answer = ascii ''Query processing incomplete'', latencyMs = 1000\<rparr>,
      UserText (ascii ''Rome?'') # replicate 10 sample_results) \<and>
   length (snd (executeQuery (sample_world insistent_chat) [] (ascii ''Rome?''))) = 11"
proof -
  have "executeQuery (sample_world insistent_chat) [] (ascii ''Rome?'') =
     (Inr \<lparr>query = ascii ''Rome?'', thoughts = [],
           agentCalls = replicate 10 sample_entry,
           answer = ascii ''Query processing incomplete'', latencyMs = 1000\<rparr>,
      UserText (ascii ''Rome?'') # replicate 10 sample_results)"
    by (simp add: executeQuery_def sample_world_fields insistent_chat_def insistent_loop)
  then show ?thesis by simp
qed




text \<open>
  C10: a call whose dispatch throws gives an error response and pushes nothing on
  \<open>agentCalls\<close>; a call whose dispatch returns gives a result response and pushes its
  entry; a name outside the four known functions throws. So the entries of
  \<open>agentCalls\<close> in the returned record are, up to order, the successful results that
  were sent to the model: errors are sent but leave no entry.
\<close>

theorem C10_agentCalls_only_successes:
  "(\<forall>m. dispatch w net call = Inl m \<longrightarrow>
        handle_call w net call = (\<lparr>fr_name = name call, fr_response = Inl m\<rparr>, None)) \<and>
   (\<forall>r. dispatch w net call = Inr r \<longrightarrow>
        handle_call w net call =
          (\<lparr>fr_name = name call, fr_response = Inr r\<rparr>,
           Some \<lparr>agent = name call, call_params = args call, call_response = r\<rparr>)) \<and>
   (name call \<notin> set KNOWN_FUNCTIONS \<longrightarrow>
        dispatch w net call = Inl (ascii ''Unknown function: '' @ name call)) \<and>
   (\<forall>r sent. executeQuery w hist q = (Inr r, sent) \<longrightarrow>
        mset (map entry_key (agentCalls r)) = mset (concat (map tool_successes sent)))"
proof (intro conjI allI impI)
  fix m assume "dispatch w net call = Inl m"
  then show "handle_call w net call = (\<lparr>fr_name = name call, fr_response = Inl m\<rparr>, None)"
    by (rule handle_call_Inl)
next
  fix r assume "dispatch w net call = Inr r"
  then show "handle_call w net call =
          (\<lparr>fr_name = name call, fr_response = Inr r\<rparr>,
           Some \<lparr>agent = name call, call_params = args call, call_response = r\<rparr>)"
    by (rule handle_call_Inr)
next
  assume "name call \<notin> set KNOWN_FUNCTIONS"
  then show "dispatch w net call = Inl (ascii ''Unknown function: '' @ name call)"
    by (rule dispatch_unknown)
next
  fix r sent assume "executeQuery w hist q = (Inr r, sent)"
  then have "map entry_key (agentCalls r) = concat (map tool_successes sent)"
    by (rule executeQuery_agentCalls)
  then show "mset (map entry_key (agentCalls r)) = mset (concat (map tool_successes sent))"
    by simp
qed


theorem C10_agentCalls_only_successes_witness:
  "dispatch (sample_world one_round_chat) sample_network geocode_rome = Inl (ascii ''timeout'') \<and>
   handle_call (sample_world one_round_chat) sample_network geocode_rome =
     (\<lparr>fr_name = name geocode_rome, fr_response = Inl (ascii ''timeout'')\<rparr>, None) \<and>
   dispatch (sample_world one_round_chat) sample_network summary_rome =
     Inr (ascii ''**Rome**'' @ nl @ nl @ ascii ''Rome is the capital of Italy.'') \<and>
   handle_call (sample_world one_round_chat) sample_network summary_rome =
     (\<lparr>fr_name = name summary_rome,
       fr_response = Inr (ascii ''**Rome**'' @ nl @ nl @ ascii ''Rome is the capital of Italy.'')\<rparr>,
      Some \<lparr>agent = name summary_rome, call_params = args summary_rome,
            call_response = ascii ''**Rome**'' @ nl @ nl @ ascii ''Rome is the capital of Italy.''\<rparr>) \<and>
   executeQuery (sample_world one_round_chat) [] (ascii ''Rome?'') =
     (Inr \<lparr>query = ascii ''Rome?'', thoughts = [], agentCalls = [sample_entry],
           answer = ascii ''Rome is the capital of Italy.'', latencyMs = 1000\<rparr>,
      [UserText (ascii ''Rome?''), sample_results]) \<and>
   mset (map entry_key [sample_entry]) =
     mset (concat (map tool_successes [UserText (ascii ''Rome?''), sample_results]))"
proof -
  let ?w = "sample_world one_round_chat"
  let ?r = "\<lparr>query = ascii ''Rome?'', thoughts = [], agentCalls = [sample_entry],
            answer = ascii ''Rome is the capital of Italy.'', latencyMs = 1000\<rparr>"
  let ?sent = "[UserText (ascii ''Rome?''), sample_results]"
  have d0: "dispatch ?w sample_network geocode_rome = Inl (ascii ''timeout'')"
    by (rule sample_dispatch_geocode)
  have d1: "dispatch ?w sample_network summary_rome =
      Inr (ascii ''**Rome**'' @ nl @ nl @ ascii ''Rome is the capital of Italy.'')"
    by (rule sample_dispatch_summary)
  have run: "executeQuery ?w [] (ascii ''Rome?'') = (Inr ?r, ?sent)"
    by (simp add: sample_run sample_entry_def sample_results_def)
  note g = C10_agentCalls_only_successes [of ?w sample_network geocode_rome "[]" "ascii ''Rome?''"]
  note s = C10_agentCalls_only_successes [of ?w sample_network summary_rome "[]" "ascii ''Rome?''"]
  from g have "\<forall>m. dispatch ?w sample_network geocode_rome = Inl m \<longrightarrow>
        handle_call ?w sample_network geocode_rome =
          (\<lparr>fr_name = name geocode_rome, fr_response = Inl m\<rparr>, None)"
    by (rule conjunct1)
  with d0 have h0: "handle_call ?w sample_network geocode_rome =
      (\<lparr>fr_name = name geocode_rome, fr_response = Inl (ascii ''timeout'')\<rparr>, None)"
    by blast
  from s have "\<forall>r. dispatch ?w sample_network summary_rome = Inr r \<longrightarrow>
        handle_call ?w sample_network summary_rome =
          (\<lparr>fr_name = name summary_rome, fr_response = Inr r\<rparr>,
           Some \<lparr>agent = name summary_rome, call_params = args summary_rome, call_response = r\<rparr>)"
    by (rule conjunct1 [OF conjunct2])
  with d1 have h1: "handle_call ?w sample_network summary_rome =
     (\<lparr>fr_name = name summary_rome,
       fr_response = Inr (ascii ''**Rome**'' @ nl @ nl @ ascii ''Rome is the capital of Italy.'')\<rparr>,
      Some \<lparr>agent = name summary_rome, call_params = args summary_rome,
            call_response = ascii ''**Rome**'' @ nl @ nl @ ascii ''Rome is the capital of Italy.''\<rparr>)"
    by blast
  from g have "\<forall>r sent. executeQuery ?w [] (ascii ''Rome?'') = (Inr r, sent) \<longrightarrow>
        mset (map entry_key (agentCalls r)) = mset (concat (map tool_successes sent))"
    by (rule conjunct2 [OF conjunct2 [OF conjunct2]])
  with run have "mset (map entry_key (agentCalls ?r)) = mset (concat (map tool_successes ?sent))"
    by blast
  then have m: "mset (map entry_key [sample_entry]) = mset (concat (map tool_successes ?sent))"
    by simp
  from d0 h0 d1 h1 run m show ?thesis by (intro conjI)
qed
section \<open>Properties of the conversation store\<close>

lemma map_of_map_set_same: "map_of (map_set k v m) k = Some v"
  by (induction m) (auto simp: map_set_def split: if_splits)

lemma keys_map_set:
  "map fst (map_set k v m) = (if k \<in> fst ` set m then map fst m else map fst m @ [k])"
  by (induction m) (auto simp: map_set_def)

lemma set_map_set: "set (map_set k v m) \<subseteq> insert (k, v) (set m)"
  by (auto simp: map_set_def split: if_splits)

lemma map_set_fresh: "k \<notin> fst ` set m \<Longrightarrow> map_set k v m = m @ [(k, v)]"
  by (simp add: map_set_def)

lemma distinct_map_set: "distinct (map fst m) \<Longrightarrow> distinct (map fst (map_set k v m))"
  by (auto simp: keys_map_set)

lemma map_delete_subset: "set (map_delete k m) \<subseteq> set m"
  by (auto simp: map_delete_def)

lemma distinct_map_delete: "distinct (map fst m) \<Longrightarrow> distinct (map fst (map_delete k m))"
  by (simp add: map_delete_def distinct_map_filter)

lemma fold_map_delete:
  "fold (\<lambda>conv m. map_delete (conv_id conv) m) ds m =
   filter (\<lambda>(k, v). k \<notin> conv_id ` set ds) m"
proof (induction ds arbitrary: m)
  case Nil
  then show ?case by simp
next
  case (Cons d ds)
  have "filter (\<lambda>(k, v). k \<notin> conv_id ` set ds) (map_delete (conv_id d) m) =
        filter (\<lambda>(k, v). k \<notin> conv_id ` set (d # ds)) m"
    by (induction m) (auto simp: map_delete_def)
  with Cons show ?case by simp
qed

lemma store_ok_entry:
  "store_ok mgr \<Longrightarrow> getConversation mgr cid = Some c \<Longrightarrow>
   conv_id c = cid \<and> (\<exists>md. metadata c = Some md \<and> distinct (agentsUsed md))"
  unfolding store_ok_def getConversation_def
  by (auto dest!: map_of_SomeD)

lemma store_ok_subset:
  assumes "store_ok mgr" and "set cs \<subseteq> set (conversations mgr)" and "distinct (map fst cs)"
  shows "store_ok (mgr\<lparr>conversations := cs\<rparr>)"
  using assms unfolding store_ok_def by auto

lemma store_ok_map_set:
  assumes "store_ok mgr" and "conv_id c = k"
      and "\<exists>md. metadata c = Some md \<and> distinct (agentsUsed md)"
  shows "store_ok (mgr\<lparr>conversations := map_set k c (conversations mgr)\<rparr>)"
  unfolding store_ok_def
proof (intro conjI)
  show "distinct (map fst (conversations (mgr\<lparr>conversations := map_set k c (conversations mgr)\<rparr>)))"
    using assms(1) by (simp add: store_ok_def distinct_map_set)
  show "\<forall>(k', c') \<in> set (conversations (mgr\<lparr>conversations := map_set k c (conversations mgr)\<rparr>)).
          conv_id c' = k' \<and> (\<exists>md. metadata c' = Some md \<and> distinct (agentsUsed md))"
    using assms set_map_set [of k c "conversations mgr"] unfolding store_ok_def by auto
qed

lemma store_ok_cleanup: "store_ok mgr \<Longrightarrow> store_ok (cleanupOldConversations mgr)"
  unfolding cleanupOldConversations_def Let_def
  by (rule store_ok_subset) (auto simp: fold_map_delete store_ok_def distinct_map_filter)

lemma store_ok_create: "store_ok mgr \<Longrightarrow> store_ok (snd (createConversation t i c u mgr))"
  unfolding createConversation_def Let_def
  by (auto intro!: store_ok_cleanup store_ok_map_set)

lemma distinct_set_add: "distinct xs \<Longrightarrow> distinct (set_add x xs)"
  by (simp add: set_add_def)

lemma distinct_fold_set_add:
  "distinct xs \<Longrightarrow> distinct (fold (\<lambda>call used. set_add (agent call) used) cs xs)"
  by (induction cs arbitrary: xs) (simp_all add: distinct_set_add)

lemma set_fold_set_add:
  "set (fold (\<lambda>call used. set_add (agent call) used) cs xs) = set xs \<union> agent ` set cs"
  by (induction cs arbitrary: xs) (auto simp: set_add_def)

lemma store_ok_user:
  assumes "store_ok mgr" and "addUserMessage cid txt i s u mgr = Inr (msg, mgr')"
  shows "store_ok mgr'"
proof -
  from assms(2) obtain c where c: "getConversation mgr cid = Some c"
    by (auto simp: addUserMessage_def split: option.splits)
  from store_ok_entry [OF assms(1) c] obtain md where
    "conv_id c = cid" "metadata c = Some md" "distinct (agentsUsed md)" by blast
  with assms c show ?thesis
    by (auto simp: addUserMessage_def Let_def intro!: store_ok_map_set)
qed

lemma store_ok_assistant:
  assumes "store_ok mgr" and "addAssistantMessage cid txt qr i s u mgr = Inr (msg, mgr')"
  shows "store_ok mgr'"
proof -
  from assms(2) obtain c where c: "getConversation mgr cid = Some c"
    by (auto simp: addAssistantMessage_def split: option.splits)
  from store_ok_entry [OF assms(1) c] obtain md where
    "conv_id c = cid" "metadata c = Some md" "distinct (agentsUsed md)" by blast
  with assms c show ?thesis
    by (auto simp: addAssistantMessage_def Let_def distinct_fold_set_add
             intro!: store_ok_map_set)
qed

lemma reachable_store_ok: "reachable mgr \<Longrightarrow> store_ok mgr"
proof (induction rule: reachable.induct)
  case (init m)
  then show ?case by (simp add: store_ok_def new_manager_def)
next
  case (create mgr t i c u)
  then show ?case by (simp add: store_ok_create)
next
  case (user mgr cid body i s u msg mgr')
  then show ?case using store_ok_user by blast
next
  case (assistant mgr cid body qr i s u msg mgr')
  then show ?case using store_ok_assistant by blast
next
  case (delete mgr cid)
  then show ?case
    unfolding deleteConversation_def
    by (auto intro!: store_ok_subset simp: store_ok_def distinct_map_delete
             dest: subsetD [OF map_delete_subset])
next
  case (clear mgr)
  then show ?case by (simp add: clearAll_def store_ok_def)
qed

lemma generateTitle_short: "length s \<le> 50 \<Longrightarrow> generateTitle s = s"
  by (simp add: generateTitle_def)

lemma generateTitle_long: "length s > 50 \<Longrightarrow> generateTitle s = take 47 s @ ascii ''...''"
  by (simp add: generateTitle_def)

lemma generateTitle_length: "length (generateTitle s) \<le> 50"
  by (simp add: generateTitle_def Let_def ascii_def)


lemma store_values_distinct:
  assumes "store_ok mgr"
  shows "distinct (map snd (conversations mgr))"
proof -
  have "map (\<lambda>x. conv_id (snd x)) (conversations mgr) = map fst (conversations mgr)"
    by (rule map_cong) (use assms in \<open>auto simp: store_ok_def\<close>)
  then have "map conv_id (map snd (conversations mgr)) = map fst (conversations mgr)"
    by (simp add: comp_def)
  with assms have "distinct (map conv_id (map snd (conversations mgr)))"
    by (simp only: store_ok_def)
  then show ?thesis using distinct_map by blast
qed

lemma store_key_in_ids:
  assumes ok: "store_ok mgr" and e: "(k, v) \<in> set (conversations mgr)"
      and ds: "set ds \<subseteq> set (map snd (conversations mgr))"
  shows "k \<in> conv_id ` set ds \<longleftrightarrow> v \<in> set ds"
proof
  assume "k \<in> conv_id ` set ds"
  then obtain d where d: "d \<in> set ds" and kd: "k = conv_id d" by blast
  from d ds obtain k' where k': "(k', d) \<in> set (conversations mgr)" by auto
  with ok have "conv_id d = k'" by (auto simp: store_ok_def)
  with kd k' have "(k, d) \<in> set (conversations mgr)" by simp
  with e ok have "v = d"
    unfolding store_ok_def by (meson eq_key_imp_eq_value)
  with d show "v \<in> set ds" by simp
next
  assume "v \<in> set ds"
  moreover from ok e have "conv_id v = k" by (auto simp: store_ok_def)
  ultimately show "k \<in> conv_id ` set ds" by blast
qed

lemma listConversations_set: "set (listConversations mgr) = set (map snd (conversations mgr))"
  by (simp add: listConversations_def)

lemma listConversations_length: "length (listConversations mgr) = length (conversations mgr)"
  by (simp add: listConversations_def)

lemma listConversations_distinct:
  "store_ok mgr \<Longrightarrow> distinct (listConversations mgr)"
  by (simp add: listConversations_def store_values_distinct)

lemma listConversations_order:
  assumes "r \<in> set (take n (listConversations mgr))"
      and "e \<in> set (drop n (listConversations mgr))"
  shows "updatedAt e \<le> updatedAt r"
proof -
  have "sorted (map (\<lambda>c. - updatedAt c) (listConversations mgr))"
    by (simp add: listConversations_def)
  then have "sorted (map (\<lambda>c. - updatedAt c) (take n (listConversations mgr)) @
                     map (\<lambda>c. - updatedAt c) (drop n (listConversations mgr)))"
    by (simp flip: map_append)
  with assms have "- updatedAt r \<le> - updatedAt e"
    by (auto simp: sorted_append)
  then show ?thesis by simp
qed

lemma cleanup_conversations:
  assumes ok: "store_ok mgr" and M: "0 \<le> maxConversations mgr"
  shows "conversations (cleanupOldConversations mgr) =
         filter (\<lambda>(k, v). v \<notin> set (drop (nat (maxConversations mgr)) (listConversations mgr)))
           (conversations mgr)"
proof -
  let ?ds = "drop (nat (maxConversations mgr)) (listConversations mgr)"
  have sub: "set ?ds \<subseteq> set (map snd (conversations mgr))"
    using set_drop_subset [of "nat (maxConversations mgr)" "listConversations mgr"]
    by (simp add: listConversations_set)
  have "conversations (cleanupOldConversations mgr) =
        filter (\<lambda>(k, v). k \<notin> conv_id ` set ?ds) (conversations mgr)"
    using M by (simp add: cleanupOldConversations_def Let_def js_slice_from_def fold_map_delete)
  also have "\<dots> = filter (\<lambda>(k, v). v \<notin> set ?ds) (conversations mgr)"
  proof (rule filter_cong [OF refl])
    fix x assume x: "x \<in> set (conversations mgr)"
    obtain k v where kv: "x = (k, v)" by (cases x)
    with x have "(k, v) \<in> set (conversations mgr)" by simp
    from store_key_in_ids [OF ok this sub]
    show "(case x of (k, v) \<Rightarrow> k \<notin> conv_id ` set ?ds) = (case x of (k, v) \<Rightarrow> v \<notin> set ?ds)"
      by (simp add: kv)
  qed
  finally show ?thesis .
qed

lemma take_drop_distinct_set:
  assumes "distinct xs"
  shows "set xs - set (drop n xs) = set (take n xs)"
proof -
  from assms have "distinct (take n xs @ drop n xs)" by simp
  then have "set (take n xs) \<inter> set (drop n xs) = {}" by (simp only: distinct_append) 
  moreover have "set xs = set (take n xs) \<union> set (drop n xs)"
    by (metis append_take_drop_id set_append)
  ultimately show ?thesis by blast
qed

lemma cleanup_retained:
  assumes ok: "store_ok mgr" and M: "0 \<le> maxConversations mgr"
  shows "set (map snd (conversations (cleanupOldConversations mgr))) =
         set (take (nat (maxConversations mgr)) (listConversations mgr))"
proof -
  let ?ds = "drop (nat (maxConversations mgr)) (listConversations mgr)"
  have "set (map snd (conversations (cleanupOldConversations mgr))) =
        set (map snd (conversations mgr)) - set ?ds"
    unfolding cleanup_conversations [OF ok M] by force
  also have "\<dots> = set (listConversations mgr) - set ?ds"
    by (simp only: listConversations_set)
  also have "\<dots> = set (take (nat (maxConversations mgr)) (listConversations mgr))"
    by (rule take_drop_distinct_set) (rule listConversations_distinct [OF ok])
  finally show ?thesis .
qed

lemma cleanup_length:
  assumes ok: "store_ok mgr" and M: "0 \<le> maxConversations mgr"
  shows "length (conversations (cleanupOldConversations mgr)) =
         min (nat (maxConversations mgr)) (length (conversations mgr))"
proof -
  have d: "distinct (map snd (conversations (cleanupOldConversations mgr)))"
    using store_values_distinct [OF store_ok_cleanup [OF ok]] .
  have "length (conversations (cleanupOldConversations mgr)) =
        card (set (map snd (conversations (cleanupOldConversations mgr))))"
    using distinct_card [OF d] by simp
  also have "\<dots> = card (set (take (nat (maxConversations mgr)) (listConversations mgr)))"
    by (simp only: cleanup_retained [OF ok M])
  also have "\<dots> = length (take (nat (maxConversations mgr)) (listConversations mgr))"
    by (rule distinct_card) (simp add: listConversations_distinct [OF ok])
  also have "\<dots> = min (nat (maxConversations mgr)) (length (conversations mgr))"
    by (simp add: listConversations_length min.commute)
  finally show ?thesis .
qed

lemma cleanup_subset:
  assumes ok: "store_ok mgr" and M: "0 \<le> maxConversations mgr"
  shows "set (conversations (cleanupOldConversations mgr)) \<subseteq> set (conversations mgr)"
  unfolding cleanup_conversations [OF ok M] by auto

lemma cleanup_evicts_oldest:
  assumes ok: "store_ok mgr" and M: "0 \<le> maxConversations mgr"
      and e: "e \<in> set (conversations mgr)" "e \<notin> set (conversations (cleanupOldConversations mgr))"
      and r: "r \<in> set (conversations (cleanupOldConversations mgr))"
  shows "updatedAt (snd e) \<le> updatedAt (snd r)"
proof -
  let ?ds = "drop (nat (maxConversations mgr)) (listConversations mgr)"
  from e(2) have "e \<notin> set (filter (\<lambda>(k, v). v \<notin> set ?ds) (conversations mgr))"
    unfolding cleanup_conversations [OF ok M] .
  with e(1) have "\<not> (case e of (k, v) \<Rightarrow> v \<notin> set ?ds)" by simp
  then have "snd e \<in> set ?ds" by (cases e) simp
  moreover from r have "snd r \<in> set (map snd (conversations (cleanupOldConversations mgr)))"
    by simp
  then have "snd r \<in> set (take (nat (maxConversations mgr)) (listConversations mgr))"
    by (simp only: cleanup_retained [OF ok M])
  ultimately show ?thesis by (rule listConversations_order [rotated])
qed

lemma cleanup_max: "maxConversations (cleanupOldConversations mgr) = maxConversations mgr"
  by (simp add: cleanupOldConversations_def Let_def)

lemma cleanup_subset_any:
  "set (conversations (cleanupOldConversations mgr)) \<subseteq> set (conversations mgr)"
  by (auto simp: cleanupOldConversations_def Let_def fold_map_delete)

lemma create_fst:
  "fst (createConversation t i c u mgr) =
     \<lparr>conv_id = i,
      title = (case t of
                 Some t' \<Rightarrow> if t' \<noteq> [] then t'
                            else ascii ''Conversation '' @ show_nat (length (conversations mgr) + 1)
               | None \<Rightarrow> ascii ''Conversation '' @ show_nat (length (conversations mgr) + 1)),
      messages = [], createdAt = c, updatedAt = u,
      metadata = Some \<lparr>totalQueries = 0, totalLatencyMs = 0, agentsUsed = []\<rparr>\<rparr>"
  by (simp add: createConversation_def Let_def split: option.split)

lemma create_snd:
  "snd (createConversation t i c u mgr) =
     (if int (length (map_set i (fst (createConversation t i c u mgr)) (conversations mgr)))
           > maxConversations mgr
      then cleanupOldConversations
             (mgr\<lparr>conversations := map_set i (fst (createConversation t i c u mgr))
                                     (conversations mgr)\<rparr>)
      else mgr\<lparr>conversations := map_set i (fst (createConversation t i c u mgr))
                                  (conversations mgr)\<rparr>)"
  by (simp add: createConversation_def Let_def)

lemma create_max: "maxConversations (snd (createConversation t i c u mgr)) = maxConversations mgr"
  by (simp add: create_snd cleanup_max)

lemma create_stored_ok:
  assumes "store_ok mgr"
  shows "store_ok (mgr\<lparr>conversations := map_set i (fst (createConversation t i c u mgr))
                                        (conversations mgr)\<rparr>)"
  by (rule store_ok_map_set [OF assms]) (simp_all add: create_fst)

lemma create_keys:
  "fst ` set (conversations (snd (createConversation t i c u mgr))) \<subseteq>
   insert i (fst ` set (conversations mgr))"
proof -
  let ?stored = "map_set i (fst (createConversation t i c u mgr)) (conversations mgr)"
  have "set (conversations (snd (createConversation t i c u mgr))) \<subseteq> set ?stored"
    using cleanup_subset_any [of "mgr\<lparr>conversations := ?stored\<rparr>"]
    by (auto simp: create_snd)
  moreover have "fst ` set ?stored \<subseteq> insert i (fst ` set (conversations mgr))"
    using set_map_set [of i _ "conversations mgr"] by force
  ultimately show ?thesis by blast
qed

lemma create_length_le:
  assumes ok: "store_ok mgr" and M: "0 \<le> maxConversations mgr"
  shows "int (length (conversations (snd (createConversation t i c u mgr)))) \<le> maxConversations mgr"
proof -
  let ?stored = "map_set i (fst (createConversation t i c u mgr)) (conversations mgr)"
  let ?mgr1 = "mgr\<lparr>conversations := ?stored\<rparr>"
  have ok1: "store_ok ?mgr1" by (rule create_stored_ok [OF ok])
  have M1: "0 \<le> maxConversations ?mgr1" using M by simp
  show ?thesis
  proof (cases "int (length ?stored) > maxConversations mgr")
    case True
    then have "conversations (snd (createConversation t i c u mgr)) =
               conversations (cleanupOldConversations ?mgr1)"
      by (simp add: create_snd)
    then show ?thesis using cleanup_length [OF ok1 M1] M by simp
  next
    case False
    then show ?thesis by (simp add: create_snd)
  qed
qed

lemma create_length_fresh:
  assumes ok: "store_ok mgr" and M: "0 \<le> maxConversations mgr"
      and fresh: "i \<notin> fst ` set (conversations mgr)"
  shows "int (length (conversations (snd (createConversation t i c u mgr)))) =
         min (int (length (conversations mgr)) + 1) (maxConversations mgr)"
proof -
  let ?stored = "map_set i (fst (createConversation t i c u mgr)) (conversations mgr)"
  let ?mgr1 = "mgr\<lparr>conversations := ?stored\<rparr>"
  have ok1: "store_ok ?mgr1" by (rule create_stored_ok [OF ok])
  have M1: "0 \<le> maxConversations ?mgr1" using M by simp
  have len: "length ?stored = length (conversations mgr) + 1"
    using fresh by (simp add: map_set_fresh)
  show ?thesis
  proof (cases "int (length ?stored) > maxConversations mgr")
    case True
    then have "conversations (snd (createConversation t i c u mgr)) =
               conversations (cleanupOldConversations ?mgr1)"
      by (simp add: create_snd)
    then show ?thesis using cleanup_length [OF ok1 M1] M True len by simp
  next
    case False
    then show ?thesis using len by (simp add: create_snd)
  qed
qed

lemma create_all_snoc:
  "create_all (xs @ [(t, i, c, u)]) mgr = snd (createConversation t i c u (create_all xs mgr))"
  by (induction xs mgr rule: create_all.induct) simp_all

lemma create_all_reachable: "reachable mgr \<Longrightarrow> reachable (create_all xs mgr)"
  by (induction xs mgr rule: create_all.induct) (simp_all add: reachable.create)

lemma create_all_max: "maxConversations (create_all xs mgr) = maxConversations mgr"
  by (induction xs mgr rule: create_all.induct) (simp_all add: create_max)

lemma create_all_keys:
  "fst ` set (conversations (create_all xs (new_manager m))) \<subseteq> set (map (\<lambda>x. fst (snd x)) xs)"
proof (induction xs rule: rev_induct)
  case Nil
  then show ?case by (simp add: new_manager_def)
next
  case (snoc x xs)
  obtain t i c u where x: "x = (t, i, c, u)" by (cases x)
  show ?case
    using create_keys [of t i c u "create_all xs (new_manager m)"] snoc
    by (auto simp: x create_all_snoc)
qed

lemma create_all_length:
  assumes M: "0 \<le> m" and d: "distinct (map (\<lambda>x. fst (snd x)) xs)"
  shows "int (length (conversations (create_all xs (new_manager m)))) = min (int (length xs)) m"
  using d
proof (induction xs rule: rev_induct)
  case Nil
  then show ?case using M by (simp add: new_manager_def)
next
  case (snoc x xs)
  obtain t i c u where x: "x = (t, i, c, u)" by (cases x)
  let ?mgr = "create_all xs (new_manager m)"
  from snoc(2) have d': "distinct (map (\<lambda>x. fst (snd x)) xs)" and f: "i \<notin> set (map (\<lambda>x. fst (snd x)) xs)"
    by (simp_all add: x)
  from f create_all_keys [of xs m] have fresh: "i \<notin> fst ` set (conversations ?mgr)" by blast
  have ok: "store_ok ?mgr"
    by (rule reachable_store_ok [OF create_all_reachable [OF reachable.init]])
  have mx: "maxConversations ?mgr = m" by (simp add: create_all_max new_manager_def)
  from create_length_fresh [OF ok _ fresh, of t c u] M mx snoc(1) [OF d']
  show ?case by (simp add: x create_all_snoc)
qed

text \<open>The sample stores.\<close>

lemma sample_conversation_value:
  "sample_conversation =
     \<lparr>conv_id = ascii ''c1'', title = ascii ''My chat'', messages = [], createdAt = 0,
      updatedAt = 0,
      metadata = Some \<lparr>totalQueries = 0, totalLatencyMs = 0, agentsUsed = []\<rparr>\<rparr>"
  by (simp add: sample_conversation_def createConversation_def Let_def ascii_def)

lemma sample_store_value:
  "sample_store = \<lparr>conversations = [(ascii ''c1'', sample_conversation)], maxConversations = 100\<rparr>"
  by (simp add: sample_store_def sample_conversation_def createConversation_def Let_def
        new_manager_def map_set_def)

lemma sample_store_reachable: "reachable sample_store"
  unfolding sample_store_def by (rule reachable.create [OF reachable.init])


lemma two_creates_store:
  "map fst (conversations (create_all two_creates (new_manager 2))) = [ascii ''a'', ascii ''b'']"
  by (simp add: two_creates_def new_manager_def createConversation_def Let_def map_set_def
        ascii_def)

lemma third_create_store:
  "map fst (conversations (snd (createConversation None (ascii ''c'') 3 3
                                  (create_all two_creates (new_manager 2))))) =
     [ascii ''b'', ascii ''c'']"
  by (simp add: two_creates_def new_manager_def createConversation_def Let_def map_set_def
        ascii_def cleanupOldConversations_def listConversations_def js_slice_from_def
        map_delete_def)


lemma wikipedia_messages_differ:
  "ascii ''Wikipedia request failed: '' @ m \<noteq>
   ascii ''Wikipedia article not found for: '' @ dq @ t @ dq"
  by (simp add: ascii_def)

section \<open>Claims about the conversation store\<close>

text \<open>
  C6. Take a manager built with a maximum \<open>M\<close> that is not negative, any run of
  \<open>createConversation\<close> calls on it, and one more call. After that call the store
  holds at most \<open>M\<close> conversations, all of them among those held right after the new
  one was stored. If that made more than \<open>M\<close>, exactly \<open>M\<close> are kept, and they are the
  first \<open>M\<close> of the listing by most recent update; every conversation evicted was
  updated no later than every conversation kept. When the identifiers of all the calls
  are distinct, the store holds \<open>min (n, M)\<close> conversations after \<open>n\<close> calls.
\<close>

theorem C6_store_keeps_most_recent:
  assumes "0 \<le> M"
      and "mgr = create_all ins (new_manager M)"
      and "createConversation t i c u mgr = (conv, mgr')"
      and "stored = map_set i conv (conversations mgr)"
  shows "int (length (conversations mgr')) \<le> M \<and>
         set (conversations mgr') \<subseteq> set stored \<and>
         (int (length stored) > M \<longrightarrow>
            int (length (conversations mgr')) = M \<and>
            set (map snd (conversations mgr')) =
              set (take (nat M) (listConversations (mgr\<lparr>conversations := stored\<rparr>)))) \<and>
         (\<forall>e \<in> set stored. e \<notin> set (conversations mgr') \<longrightarrow>
            (\<forall>r \<in> set (conversations mgr'). updatedAt (snd e) \<le> updatedAt (snd r))) \<and>
         (distinct (i # map (\<lambda>x. fst (snd x)) ins) \<longrightarrow>
            int (length (conversations mgr')) = min (int (length ins) + 1) M)"
proof -
  let ?mgr1 = "mgr\<lparr>conversations := stored\<rparr>"
  have ok: "store_ok mgr"
    unfolding assms(2) by (rule reachable_store_ok [OF create_all_reachable [OF reachable.init]])
  have mx: "maxConversations mgr = M"
    by (simp add: assms(2) create_all_max new_manager_def)
  from assms(3) have conv: "conv = fst (createConversation t i c u mgr)"
    and mgr': "mgr' = snd (createConversation t i c u mgr)" by simp_all
  have ok1: "store_ok ?mgr1"
    unfolding assms(4) conv by (rule create_stored_ok [OF ok])
  have M1: "0 \<le> maxConversations ?mgr1" using assms(1) mx by simp
  have mx1: "maxConversations ?mgr1 = M" using mx by simp
  have step: "mgr' = (if int (length stored) > M then cleanupOldConversations ?mgr1 else ?mgr1)"
    unfolding mgr' assms(4) conv by (simp add: create_snd mx)
  have le: "int (length (conversations mgr')) \<le> M"
    unfolding mgr' using create_length_le [OF ok, of t i c u] assms(1) mx by simp
  have sub: "set (conversations mgr') \<subseteq> set stored"
    unfolding step using cleanup_subset [OF ok1 M1] by simp
  have full: "int (length stored) > M \<longrightarrow>
            int (length (conversations mgr')) = M \<and>
            set (map snd (conversations mgr')) = set (take (nat M) (listConversations ?mgr1))"
  proof
    assume big: "int (length stored) > M"
    then have m: "mgr' = cleanupOldConversations ?mgr1" by (simp add: step)
    have "length (conversations mgr') = min (nat M) (length stored)"
      unfolding m using cleanup_length [OF ok1 M1] mx1 by simp
    with big assms(1) have a: "int (length (conversations mgr')) = M" by simp
    have b: "set (map snd (conversations mgr')) = set (take (nat M) (listConversations ?mgr1))"
      unfolding m using cleanup_retained [OF ok1 M1] mx1 by simp
    from a b show "int (length (conversations mgr')) = M \<and>
            set (map snd (conversations mgr')) = set (take (nat M) (listConversations ?mgr1))"
      by blast
  qed
  have old: "\<forall>e \<in> set stored. e \<notin> set (conversations mgr') \<longrightarrow>
            (\<forall>r \<in> set (conversations mgr'). updatedAt (snd e) \<le> updatedAt (snd r))"
  proof (intro ballI impI)
    fix e r
    assume e: "e \<in> set stored" "e \<notin> set (conversations mgr')"
      and r: "r \<in> set (conversations mgr')"
    show "updatedAt (snd e) \<le> updatedAt (snd r)"
    proof (cases "int (length stored) > M")
      case True
      then have m: "mgr' = cleanupOldConversations ?mgr1" by (simp add: step)
      from e have e1: "e \<in> set (conversations ?mgr1)" by simp
      have e2: "e \<notin> set (conversations (cleanupOldConversations ?mgr1))"
        using e(2) unfolding m .
      have r1: "r \<in> set (conversations (cleanupOldConversations ?mgr1))"
        using r unfolding m .
      from cleanup_evicts_oldest [OF ok1 M1 e1 e2 r1] show ?thesis .
    next
      case False
      then have "conversations mgr' = stored" by (simp add: step)
      with e show ?thesis by simp
    qed
  qed
  have cnt: "distinct (i # map (\<lambda>x. fst (snd x)) ins) \<longrightarrow>
            int (length (conversations mgr')) = min (int (length ins) + 1) M"
  proof
    assume d: "distinct (i # map (\<lambda>x. fst (snd x)) ins)"
    then have d': "distinct (map (\<lambda>x. fst (snd x)) ins)"
      and f: "i \<notin> set (map (\<lambda>x. fst (snd x)) ins)" by simp_all
    from f create_all_keys [of ins M] have fresh: "i \<notin> fst ` set (conversations mgr)"
      unfolding assms(2) by blast
    have n: "int (length (conversations mgr)) = min (int (length ins)) M"
      unfolding assms(2) by (rule create_all_length [OF assms(1) d'])
    from create_length_fresh [OF ok _ fresh, of t c u] assms(1) mx n
    show "int (length (conversations mgr')) = min (int (length ins) + 1) M"
      by (simp add: mgr')
  qed
  from le sub full old cnt show ?thesis by (intro conjI)
qed


theorem C6_store_keeps_most_recent_witness:
  "(0::int) \<le> 2 \<and>
   distinct (ascii ''c'' # map (\<lambda>x. fst (snd x)) two_creates) \<and>
   map fst (conversations (create_all two_creates (new_manager 2))) = [ascii ''a'', ascii ''b''] \<and>
   map fst (conversations (snd (createConversation None (ascii ''c'') 3 3
                                  (create_all two_creates (new_manager 2))))) =
     [ascii ''b'', ascii ''c''] \<and>
   int (length (conversations (snd (createConversation None (ascii ''c'') 3 3
                                      (create_all two_creates (new_manager 2)))))) = 2 \<and>
   int (length (map_set (ascii ''c'')
                  (fst (createConversation None (ascii ''c'') 3 3
                          (create_all two_creates (new_manager 2))))
                  (conversations (create_all two_creates (new_manager 2))))) > 2 \<and>
   set (map snd (conversations (snd (createConversation None (ascii ''c'') 3 3
                                       (create_all two_creates (new_manager 2)))))) =
     set (take (nat 2)
            (listConversations
               ((create_all two_creates (new_manager 2))
                  \<lparr>conversations :=
                     map_set (ascii ''c'')
                       (fst (createConversation None (ascii ''c'') 3 3
                               (create_all two_creates (new_manager 2))))
                       (conversations (create_all two_creates (new_manager 2)))\<rparr>)))"
proof -
  let ?mgr = "create_all two_creates (new_manager 2)"
  let ?res = "createConversation None (ascii ''c'') 3 3 ?mgr"
  have M: "(0::int) \<le> 2" by simp
  have d: "distinct (ascii ''c'' # map (\<lambda>x. fst (snd x)) two_creates)"
    by (simp add: two_creates_def ascii_def)
  have r: "?res = (fst ?res, snd ?res)" by simp
  note t = C6_store_keeps_most_recent [OF M refl r refl]
  from t have "distinct (ascii ''c'' # map (\<lambda>x. fst (snd x)) two_creates) \<longrightarrow>
      int (length (conversations (snd ?res))) = min (int (length two_creates) + 1) 2"
    by (rule conjunct2 [OF conjunct2 [OF conjunct2 [OF conjunct2]]])
  with d have "int (length (conversations (snd ?res))) = min (int (length two_creates) + 1) 2"
    by blast
  then have n: "int (length (conversations (snd ?res))) = 2"
    by (simp add: two_creates_def)
  have big: "int (length (map_set (ascii ''c'') (fst ?res) (conversations ?mgr))) > 2"
    by (simp add: two_creates_def new_manager_def createConversation_def Let_def map_set_def
          ascii_def)
  from t have "int (length (map_set (ascii ''c'') (fst ?res) (conversations ?mgr))) > 2 \<longrightarrow>
      int (length (conversations (snd ?res))) = 2 \<and>
      set (map snd (conversations (snd ?res))) =
        set (take (nat 2)
               (listConversations
                  (?mgr\<lparr>conversations := map_set (ascii ''c'') (fst ?res) (conversations ?mgr)\<rparr>)))"
    by (rule conjunct1 [OF conjunct2 [OF conjunct2]])
  with big have kept: "set (map snd (conversations (snd ?res))) =
        set (take (nat 2)
               (listConversations
                  (?mgr\<lparr>conversations := map_set (ascii ''c'') (fst ?res) (conversations ?mgr)\<rparr>)))"
    by blast
  from M d two_creates_store third_create_store n big kept show ?thesis by (intro conjI)
qed

text \<open>
  C7. For a conversation of a running manager, \<open>addAssistantMessage\<close> succeeds and
  leaves the conversation with \<open>totalQueries\<close> one higher, \<open>totalLatencyMs\<close> higher by
  the latency of the response, and \<open>agentsUsed\<close> extended by the agent names of the
  response's calls, still without repetition.
\<close>

theorem C7_assistant_message_updates_metadata:
  assumes "reachable mgr" and "getConversation mgr cid = Some c"
  shows "\<exists>msg mgr' c' md md'.
           addAssistantMessage cid body qr i s u mgr = Inr (msg, mgr') \<and>
           getConversation mgr' cid = Some c' \<and>
           metadata c = Some md \<and> metadata c' = Some md' \<and>
           totalQueries md' = totalQueries md + 1 \<and>
           totalLatencyMs md' = totalLatencyMs md + latencyMs qr \<and>
           set (agentsUsed md') = set (agentsUsed md) \<union> agent ` set (agentCalls qr) \<and>
           distinct (agentsUsed md')"
proof -
  from assms have "store_ok mgr" by (simp add: reachable_store_ok)
  from store_ok_entry [OF this assms(2)] obtain md where
    md: "metadata c = Some md" and d: "distinct (agentsUsed md)" by blast
  let ?message = "\<lparr>msg_id = i, msg_role = Assistant, content = body, timestamp = s,
                   queryResponse = Some qr\<rparr>"
  let ?md' = "\<lparr>totalQueries = totalQueries md + 1,
               totalLatencyMs = totalLatencyMs md + latencyMs qr,
               agentsUsed = fold (\<lambda>call used. set_add (agent call) used)
                              (agentCalls qr) (agentsUsed md)\<rparr>"
  let ?c' = "c\<lparr>messages := messages c @ [?message], updatedAt := u, metadata := Some ?md'\<rparr>"
  let ?mgr' = "mgr\<lparr>conversations := map_set cid ?c' (conversations mgr)\<rparr>"
  have a: "addAssistantMessage cid body qr i s u mgr = Inr (?message, ?mgr')"
    using assms(2) md by (simp add: addAssistantMessage_def Let_def)
  have b: "getConversation ?mgr' cid = Some ?c'"
    by (simp add: getConversation_def map_of_map_set_same)
  have m: "metadata ?c' = Some ?md'" by simp
  have q: "totalQueries ?md' = totalQueries md + 1"
    and l: "totalLatencyMs ?md' = totalLatencyMs md + latencyMs qr"
    by simp_all
  have st: "set (agentsUsed ?md') = set (agentsUsed md) \<union> agent ` set (agentCalls qr)"
    by (simp add: set_fold_set_add)
  have ds: "distinct (agentsUsed ?md')"
    using d by (simp add: distinct_fold_set_add)
  from a b md m q l st ds show ?thesis by blast
qed

theorem C7_assistant_message_updates_metadata_witness:
  "reachable sample_store \<and>
   getConversation sample_store (ascii ''c1'') = Some sample_conversation \<and>
   metadata sample_conversation =
     Some \<lparr>totalQueries = 0, totalLatencyMs = 0, agentsUsed = []\<rparr> \<and>
   (\<exists>msg mgr' c' md'.
      addAssistantMessage (ascii ''c1'') (answer sample_response) sample_response (ascii ''m2'') 7 7
          sample_store = Inr (msg, mgr') \<and>
      getConversation mgr' (ascii ''c1'') = Some c' \<and>
      metadata c' = Some md' \<and>
      totalQueries md' = 1 \<and>
      totalLatencyMs md' = 1000 \<and>
      set (agentsUsed md') = {ascii ''get_wikipedia_summary''})"
proof -
  have h1: "getConversation sample_store (ascii ''c1'') = Some sample_conversation"
    by (simp add: sample_store_value getConversation_def)
  have h0: "metadata sample_conversation =
     Some \<lparr>totalQueries = 0, totalLatencyMs = 0, agentsUsed = []\<rparr>"
    by (simp add: sample_conversation_value)
  have lat: "latencyMs sample_response = 1000"
    and ag: "agent ` set (agentCalls sample_response) = {ascii ''get_wikipedia_summary''}"
    by (simp_all add: sample_response_def sample_entry_def)
  from C7_assistant_message_updates_metadata [OF sample_store_reachable h1,
         of "answer sample_response" sample_response "ascii ''m2''" 7 7]
  obtain msg mgr' c' md md' where
    a: "addAssistantMessage (ascii ''c1'') (answer sample_response) sample_response (ascii ''m2'') 7 7
          sample_store = Inr (msg, mgr')"
    and b: "getConversation mgr' (ascii ''c1'') = Some c'"
    and m0: "metadata sample_conversation = Some md"
    and m1: "metadata c' = Some md'"
    and q: "totalQueries md' = totalQueries md + 1"
    and l: "totalLatencyMs md' = totalLatencyMs md + latencyMs sample_response"
    and s: "set (agentsUsed md') = set (agentsUsed md) \<union> agent ` set (agentCalls sample_response)"
    by blast
  from m0 h0 have md: "md = \<lparr>totalQueries = 0, totalLatencyMs = 0, agentsUsed = []\<rparr>" by simp
  from q md have q': "totalQueries md' = 1" by simp
  from l md lat have l': "totalLatencyMs md' = 1000" by simp
  from s md ag have s': "set (agentsUsed md') = {ascii ''get_wikipedia_summary''}" by simp
  from a b m1 q' l' s' have "\<exists>msg mgr' c' md'.
      addAssistantMessage (ascii ''c1'') (answer sample_response) sample_response (ascii ''m2'') 7 7
          sample_store = Inr (msg, mgr') \<and>
      getConversation mgr' (ascii ''c1'') = Some c' \<and>
      metadata c' = Some md' \<and>
      totalQueries md' = 1 \<and>
      totalLatencyMs md' = 1000 \<and>
      set (agentsUsed md') = {ascii ''get_wikipedia_summary''}"
    by blast
  with sample_store_reachable h1 h0 show ?thesis by (intro conjI)
qed

text \<open>
  C8. When a conversation has no user message yet, \<open>addUserMessage\<close> succeeds and
  replaces the title, whatever it was, by \<open>generateTitle\<close> of the message: the message
  itself when it has at most 50 code units, otherwise its first 47 code units followed
  by three dots. The new title never has more than 50 code units.
\<close>

theorem C8_first_user_message_sets_title:
  assumes "getConversation mgr cid = Some c"
      and "filter (\<lambda>m. msg_role m = User) (messages c) = []"
  shows "\<exists>msg mgr' c'.
           addUserMessage cid body i s u mgr = Inr (msg, mgr') \<and>
           getConversation mgr' cid = Some c' \<and>
           title c' = generateTitle body \<and>
           (length body \<le> 50 \<longrightarrow> title c' = body) \<and>
           (length body > 50 \<longrightarrow> title c' = take 47 body @ ascii ''...'') \<and>
           length (title c') \<le> 50"
proof -
  let ?message = "\<lparr>msg_id = i, msg_role = User, content = body, timestamp = s,
                   queryResponse = None\<rparr>"
  let ?c' = "c\<lparr>messages := messages c @ [?message], updatedAt := u,
               title := generateTitle body\<rparr>"
  let ?mgr' = "mgr\<lparr>conversations := map_set cid ?c' (conversations mgr)\<rparr>"
  have a: "addUserMessage cid body i s u mgr = Inr (?message, ?mgr')"
    using assms by (simp add: addUserMessage_def Let_def)
  have b: "getConversation ?mgr' cid = Some ?c'"
    by (simp add: getConversation_def map_of_map_set_same)
  have t: "title ?c' = generateTitle body" by simp
  have "(length body \<le> 50 \<longrightarrow> title ?c' = body) \<and>
        (length body > 50 \<longrightarrow> title ?c' = take 47 body @ ascii ''...'') \<and>
        length (title ?c') \<le> 50"
    by (simp add: generateTitle_short generateTitle_long generateTitle_length)
  with a b t show ?thesis by blast
qed


theorem C8_first_user_message_sets_title_witness:
  "getConversation sample_store (ascii ''c1'') = Some sample_conversation \<and>
   filter (\<lambda>m. msg_role m = User) (messages sample_conversation) = [] \<and>
   title sample_conversation = ascii ''My chat'' \<and>
   length long_message > 50 \<and>
   (\<exists>msg mgr' c'.
      addUserMessage (ascii ''c1'') long_message (ascii ''m1'') 5 5 sample_store = Inr (msg, mgr') \<and>
      getConversation mgr' (ascii ''c1'') = Some c' \<and>
      title c' = take 47 long_message @ ascii ''...'' \<and>
      length (title c') \<le> 50)"
proof -
  have h1: "getConversation sample_store (ascii ''c1'') = Some sample_conversation"
    by (simp add: sample_store_value getConversation_def)
  have h2: "filter (\<lambda>m. msg_role m = User) (messages sample_conversation) = []"
    by (simp add: sample_conversation_value)
  have h3: "title sample_conversation = ascii ''My chat''"
    by (simp add: sample_conversation_value)
  have h4: "length long_message > 50"
    by (simp add: long_message_def ascii_def)
  from C8_first_user_message_sets_title [OF h1 h2, of long_message "ascii ''m1''" 5 5]
  obtain msg mgr' c' where
    a: "addUserMessage (ascii ''c1'') long_message (ascii ''m1'') 5 5 sample_store = Inr (msg, mgr')"
    and b: "getConversation mgr' (ascii ''c1'') = Some c'"
    and l: "length long_message > 50 \<longrightarrow> title c' = take 47 long_message @ ascii ''...''"
    and n: "length (title c') \<le> 50"
    by blast
  from l h4 have t: "title c' = take 47 long_message @ ascii ''...''" by blast
  from a b t n have "\<exists>msg mgr' c'.
      addUserMessage (ascii ''c1'') long_message (ascii ''m1'') 5 5 sample_store = Inr (msg, mgr') \<and>
      getConversation mgr' (ascii ''c1'') = Some c' \<and>
      title c' = take 47 long_message @ ascii ''...'' \<and>
      length (title c') \<le> 50"
    by blast
  with h1 h2 h3 h4 show ?thesis by (intro conjI)
qed

section \<open>Claims about the agents\<close>

text \<open>
  C9. With no bindings \<open>wikidata_formatResults\<close> returns \<open>No results found.\<close>, and with
  no candidates \<open>nominatim_formatResults\<close> returns \<open>No locations found.\<close>; neither
  throws. When the GET of the Wikipedia agent fails with status 404, the agent throws
  the not-found error naming the term; any other failure of the GET is rethrown as a
  request failure, and no request-failure message equals a not-found message.
\<close>

theorem C9_empty_results_and_not_found:
  "(bindings (results res) = [] \<longrightarrow> wikidata_formatResults res = ascii ''No results found.'') \<and>
   nominatim_formatResults [] = ascii ''No locations found.'' \<and>
   (\<forall>enc e. encodeURIComponent (replace_space_runs (ascii ''_'') False (trim term)) = Inr enc \<and>
            axios_get (wikipedia_request enc) = Inl e \<and> status e = Some 404 \<longrightarrow>
      wikipedia_execute encodeURIComponent axios_get term =
        ([wikipedia_request enc],
         Inl (ascii ''Wikipedia article not found for: '' @ dq @ term @ dq))) \<and>
   (\<forall>enc e. encodeURIComponent (replace_space_runs (ascii ''_'') False (trim term)) = Inr enc \<and>
            axios_get (wikipedia_request enc) = Inl e \<and> status e \<noteq> Some 404 \<longrightarrow>
      wikipedia_execute encodeURIComponent axios_get term =
        ([wikipedia_request enc], Inl (ascii ''Wikipedia request failed: '' @ message e))) \<and>
   (\<forall>m t. ascii ''Wikipedia request failed: '' @ m \<noteq>
           ascii ''Wikipedia article not found for: '' @ dq @ t @ dq)"
proof (intro conjI allI impI)
  assume "bindings (results res) = []"
  then show "wikidata_formatResults res = ascii ''No results found.''"
    by (simp add: wikidata_formatResults_def)
next
  show "nominatim_formatResults [] = ascii ''No locations found.''"
    by (simp add: nominatim_formatResults_def)
next
  fix enc e
  assume "encodeURIComponent (replace_space_runs (ascii ''_'') False (trim term)) = Inr enc \<and>
          axios_get (wikipedia_request enc) = Inl e \<and> status e = Some 404"
  then show "wikipedia_execute encodeURIComponent axios_get term =
        ([wikipedia_request enc],
         Inl (ascii ''Wikipedia article not found for: '' @ dq @ term @ dq))"
    by (simp add: wikipedia_execute_def Let_def)
next
  fix enc e
  assume "encodeURIComponent (replace_space_runs (ascii ''_'') False (trim term)) = Inr enc \<and>
          axios_get (wikipedia_request enc) = Inl e \<and> status e \<noteq> Some 404"
  then show "wikipedia_execute encodeURIComponent axios_get term =
        ([wikipedia_request enc], Inl (ascii ''Wikipedia request failed: '' @ message e))"
    by (simp add: wikipedia_execute_def Let_def)
next
  fix m t
  show "ascii ''Wikipedia request failed: '' @ m \<noteq>
        ascii ''Wikipedia article not found for: '' @ dq @ t @ dq"
    by (rule wikipedia_messages_differ)
qed


theorem C9_empty_results_and_not_found_witness:
  "bindings (results \<lparr>head = \<lparr>vars = [ascii ''x'']\<rparr>, results = \<lparr>bindings = []\<rparr>\<rparr>) = [] \<and>
   wikidata_formatResults \<lparr>head = \<lparr>vars = [ascii ''x'']\<rparr>, results = \<lparr>bindings = []\<rparr>\<rparr> =
     ascii ''No results found.'' \<and>
   wikipedia_execute Inr
       (\<lambda>r. Inl \<lparr>status = Some 404, message = ascii ''Request failed with status code 404''\<rparr>)
       (ascii ''No such page'') =
     ([wikipedia_request (ascii ''No_such_page'')],
      Inl (ascii ''Wikipedia article not found for: '' @ dq @ ascii ''No such page'' @ dq)) \<and>
   wikipedia_execute Inr
       (\<lambda>r. Inl \<lparr>status = Some 500, message = ascii ''Request failed with status code 500''\<rparr>)
       (ascii ''No such page'') =
     ([wikipedia_request (ascii ''No_such_page'')],
      Inl (ascii ''Wikipedia request failed: '' @ ascii ''Request failed with status code 500''))"
proof -
  let ?empty = "\<lparr>head = \<lparr>vars = [ascii ''x'']\<rparr>, results = \<lparr>bindings = []\<rparr>\<rparr>"
  let ?e404 = "\<lparr>status = Some 404, message = ascii ''Request failed with status code 404''\<rparr>"
  let ?e500 = "\<lparr>status = Some 500, message = ascii ''Request failed with status code 500''\<rparr>"
  let ?enc = "Inr :: jstring \<Rightarrow> jstring + jstring"
  let ?page = "ascii ''No such page''"
  have b: "bindings (results ?empty) = []" by simp
  have n: "replace_space_runs (ascii ''_'') False (trim ?page) = ascii ''No_such_page''"
    by (simp add: ascii_def trim_def is_space_def)
  note t4 = C9_empty_results_and_not_found [of ?empty ?enc ?page "\<lambda>r. Inl ?e404"]
  note t5 = C9_empty_results_and_not_found [of ?empty ?enc ?page "\<lambda>r. Inl ?e500"]
  from t4 have "bindings (results ?empty) = [] \<longrightarrow>
      wikidata_formatResults ?empty = ascii ''No results found.''"
    by (rule conjunct1)
  with b have f: "wikidata_formatResults ?empty = ascii ''No results found.''" by blast
  from t4 have "\<forall>enc e. (Inr (replace_space_runs (ascii ''_'') False (trim ?page)) :: jstring + jstring) = Inr enc \<and>
            (Inl ?e404 :: axios_error + WikipediaSummary) = Inl e \<and> status e = Some 404 \<longrightarrow>
      wikipedia_execute ?enc (\<lambda>r. Inl ?e404) ?page =
        ([wikipedia_request enc],
         Inl (ascii ''Wikipedia article not found for: '' @ dq @ ?page @ dq))"
    by (rule conjunct1 [OF conjunct2 [OF conjunct2]])
  from this [rule_format, of "ascii ''No_such_page''" ?e404] n
  have nf: "wikipedia_execute ?enc (\<lambda>r. Inl ?e404) ?page =
        ([wikipedia_request (ascii ''No_such_page'')],
         Inl (ascii ''Wikipedia article not found for: '' @ dq @ ?page @ dq))"
    by simp
  from t5 have "\<forall>enc e. (Inr (replace_space_runs (ascii ''_'') False (trim ?page)) :: jstring + jstring) = Inr enc \<and>
            (Inl ?e500 :: axios_error + WikipediaSummary) = Inl e \<and> status e \<noteq> Some 404 \<longrightarrow>
      wikipedia_execute ?enc (\<lambda>r. Inl ?e500) ?page =
        ([wikipedia_request enc], Inl (ascii ''Wikipedia request failed: '' @ message e))"
    by (rule conjunct1 [OF conjunct2 [OF conjunct2 [OF conjunct2]]])
  from this [rule_format, of "ascii ''No_such_page''" ?e500] n
  have rf: "wikipedia_execute ?enc (\<lambda>r. Inl ?e500) ?page =
        ([wikipedia_request (ascii ''No_such_page'')],
         Inl (ascii ''Wikipedia request failed: '' @ ascii ''Request failed with status code 500''))"
    by simp
  from b f nf rf show ?thesis by (intro conjI)
qed

text \<open>
  C5. The claim holds for two of the four agents. The Wikidata agent passes
  \<open>timeout: 10000\<close> to \<open>axios.get\<close> and the Wikipedia agent \<open>timeout: 8000\<close>. The
  Nominatim agent and the Open-Meteo agent call \<open>fetch\<close> with no timeout and no abort
  signal: the request of \<open>geocode\<close> for \<open>Rome\<close> and the request of \<open>getWeather\<close> for
  latitude 41.9 and longitude 12.5 carry none.
\<close>

theorem C5_fetch_requests_carry_no_timeout:
  "timeout (wikidata_request q) = Some 10000 \<and>
   timeout (wikipedia_request encodedTerm) = Some 8000 \<and>
   timeout (nominatim_request encodedQuery) = None \<and>
   timeout (weather_request latitude_text longitude_text includeForecast) = None \<and>
   map timeout (fst (geocode Inr (nominatim_fetch sample_network) (ascii ''Rome''))) = [None] \<and>
   map timeout (fst (getWeather (meteo_fetch sample_network) (ascii ''41.9'') (ascii ''12.5'')
                       False)) = [None]"
  by (simp add: wikidata_request_def wikipedia_request_def nominatim_request_def
        weather_request_def geocode_def getWeather_def Let_def)
end
